theory Spec2Isabelle
  imports Main "HOL-Library.Sublist"
begin

section \<open>Characters and strings of the Python source\<close>

text \<open>
  The source is Python 3: a \<open>str\<close> is a sequence of code points. A \<^typ>\<open>char\<close> stands
  for a code point below 256 (ASCII and Latin-1), and \<^typ>\<open>string\<close> for a \<open>str\<close> built
  from such code points. The character classes below are Python's classes restricted to
  that range: \<open>str.isspace\<close> and the regular-expression class \<open>\s\<close> hold of the code
  points 9-13, 28-31, 32, 133 and 160; \<open>\d\<close> holds of the ten ASCII digits only.
\<close>

definition code :: "char \<Rightarrow> nat" where
  "code c = of_char c"

definition is_space :: "char \<Rightarrow> bool" where
  "is_space c = (code c \<in> {9, 10, 11, 12, 13, 28, 29, 30, 31, 32, 133, 160})"

definition is_digit :: "char \<Rightarrow> bool" where
  "is_digit c = (48 \<le> code c \<and> code c \<le> 57)"

definition is_upper_az :: "char \<Rightarrow> bool" where
  "is_upper_az c = (65 \<le> code c \<and> code c \<le> 90)"

definition is_lower_az :: "char \<Rightarrow> bool" where
  "is_lower_az c = (97 \<le> code c \<and> code c \<le> 122)"

definition is_alnum_ascii :: "char \<Rightarrow> bool" where
  "is_alnum_ascii c = (is_digit c \<or> is_upper_az c \<or> is_lower_az c)"

text \<open>\<open>str.lower\<close>: A-Z, and the Latin-1 capitals 192-222 except the multiplication sign.\<close>

definition lower_char :: "char \<Rightarrow> char" where
  "lower_char c =
     (if is_upper_az c \<or> (192 \<le> code c \<and> code c \<le> 222 \<and> code c \<noteq> 215)
      then char_of (code c + 32) else c)"

definition lower :: "string \<Rightarrow> string" where
  "lower s = map lower_char s"

text \<open>\<open>str.strip()\<close> with no argument.\<close>

definition strip :: "string \<Rightarrow> string" where
  "strip s = rev (dropWhile is_space (rev (dropWhile is_space s)))"

text \<open>\<open>s.split(sep)\<close> for a one-character separator: never an empty list.\<close>

fun split_on :: "char \<Rightarrow> string \<Rightarrow> string list" where
  "split_on sep [] = [Nil]"
| "split_on sep (c # cs) =
     (if c = sep then [] # split_on sep cs
      else (c # hd (split_on sep cs)) # tl (split_on sep cs))"

text \<open>\<open>s.split()\<close> with no argument: the maximal runs of non-whitespace characters.\<close>

fun split_ws_aux :: "string \<Rightarrow> string \<Rightarrow> string list" where
  "split_ws_aux cur [] = (if cur = [] then [] else [rev cur])"
| "split_ws_aux cur (c # cs) =
     (if is_space c then (if cur = [] then split_ws_aux [] cs else rev cur # split_ws_aux [] cs)
      else split_ws_aux (c # cur) cs)"

definition split_ws :: "string \<Rightarrow> string list" where
  "split_ws s = split_ws_aux [] s"

text \<open>
  \<open>s.splitlines()\<close>: a line ends at LF, CR, CR LF, VT, FF, FS, GS, RS or NEL; a final
  line terminator does not open an empty last line.
\<close>

definition is_linebreak :: "char \<Rightarrow> bool" where
  "is_linebreak c = (code c \<in> {10, 11, 12, 13, 28, 29, 30, 133})"

fun splitlines_aux :: "string \<Rightarrow> string \<Rightarrow> string list" where
  "splitlines_aux cur [] = (if cur = [] then [] else [rev cur])"
| "splitlines_aux cur [c] =
     (if is_linebreak c then [rev cur] else [rev (c # cur)])"
| "splitlines_aux cur (c # d # cs) =
     (if code c = 13 \<and> code d = 10 then rev cur # splitlines_aux [] cs
      else if is_linebreak c then rev cur # splitlines_aux [] (d # cs)
      else splitlines_aux (c # cur) (d # cs))"

definition splitlines :: "string \<Rightarrow> string list" where
  "splitlines s = splitlines_aux [] s"

text \<open>\<open>s.replace(old, new)\<close>: every non-overlapping occurrence, left to right.\<close>

function replace_aux :: "string \<Rightarrow> string \<Rightarrow> string \<Rightarrow> string" where
  "replace_aux old new s =
     (if s = [] then []
      else if old \<noteq> [] \<and> prefix old s then new @ replace_aux old new (drop (length old) s)
      else hd s # replace_aux old new (tl s))"
  by pat_completeness auto
termination
  by (relation "measure (\<lambda>(old, new, s). length s)") auto

declare replace_aux.simps [simp del]

definition replace :: "string \<Rightarrow> string \<Rightarrow> string \<Rightarrow> string" where
  "replace old new s =
     (if old = [] then new @ concat (map (\<lambda>c. c # new) s) else replace_aux old new s)"

text \<open>\<open>sub in s\<close> on strings.\<close>

fun contains :: "string \<Rightarrow> string \<Rightarrow> bool" where
  "contains sub [] = (sub = [])"
| "contains sub (c # cs) = (prefix sub (c # cs) \<or> contains sub cs)"

section \<open>Python's regular expressions\<close>

text \<open>
  The source calls \<open>re.match\<close>, \<open>re.fullmatch\<close>, \<open>re.search\<close>, \<open>re.findall\<close> and
  \<open>re.sub\<close>. Python's matcher backtracks: alternatives are tried left to right, a
  quantifier is greedy, and the first way to match that is found is the match. The model
  is a matcher that lists, in the order the backtracking matcher tries them, every way a
  pattern matches at a position: the head of the list is Python's match.

  A matching state is the position in the subject, the rest of the subject from there,
  and the groups captured so far.
\<close>

datatype re =
    Chr "char \<Rightarrow> bool"
  | Eps
  | Bol
  | Eol
  | Seq re re
  | Alt re re
  | Star re
  | Group nat re

type_synonym groups = "nat \<rightharpoonup> string"
type_synonym mstate = "nat \<times> string \<times> groups"

text \<open>
  A greedy repetition first tries one more round of its body and only then stops. A
  round that consumes nothing is not repeated. The fuel is the length of the rest of the
  subject, which bounds the number of rounds that consume something.
\<close>

fun star_aux :: "(mstate \<Rightarrow> mstate list) \<Rightarrow> nat \<Rightarrow> mstate \<Rightarrow> mstate list" where
  "star_aux f 0 st = [st]"
| "star_aux f (Suc n) st =
     concat (map (\<lambda>st'. if fst st < fst st' then star_aux f n st' else []) (f st)) @ [st]"

text \<open>
  \<open>^\<close> holds at position 0, and \<open>$\<close> (without the MULTILINE flag) at the end of the subject
  and before a line feed that ends the subject.
\<close>

fun ms :: "re \<Rightarrow> mstate \<Rightarrow> mstate list" where
  "ms (Chr P) (i, s, g) =
     (case s of [] \<Rightarrow> [] | c # cs \<Rightarrow> if P c then [(Suc i, cs, g)] else [])"
| "ms Eps st = [st]"
| "ms Bol (i, s, g) = (if i = 0 then [(i, s, g)] else [])"
| "ms Eol (i, s, g) = (if s = [] \<or> s = [CHR 0x0A] then [(i, s, g)] else [])"
| "ms (Seq a b) st = concat (map (ms b) (ms a st))"
| "ms (Alt a b) st = ms a st @ ms b st"
| "ms (Star a) (i, s, g) = star_aux (ms a) (length s) (i, s, g)"
| "ms (Group k a) (i, s, g) =
     map (\<lambda>(j, t, h). (j, t, h(k \<mapsto> take (j - i) s))) (ms a (i, s, g))"

text \<open>Derived forms: a literal, \<open>r+\<close>, \<open>r?\<close>, and a literal under the flag \<open>(?i)\<close>.\<close>

definition ch :: "char \<Rightarrow> re" where
  "ch c = Chr (\<lambda>x. x = c)"

definition lit :: "string \<Rightarrow> re" where
  "lit s = foldr (\<lambda>c r. Seq (ch c) r) s Eps"

definition lit_ci :: "string \<Rightarrow> re" where
  "lit_ci s = foldr (\<lambda>c r. Seq (Chr (\<lambda>x. lower_char x = lower_char c)) r) s Eps"

definition plus_re :: "re \<Rightarrow> re" where
  "plus_re r = Seq r (Star r)"

definition opt :: "re \<Rightarrow> re" where
  "opt r = Alt r Eps"

fun seqs :: "re list \<Rightarrow> re" where
  "seqs [] = Eps"
| "seqs [r] = r"
| "seqs (r # rs) = Seq r (seqs rs)"

text \<open>
  The match at position \<open>i\<close>, where \<open>s\<close> is the subject from \<open>i\<close> on: the end position and
  the groups of the first way to match.
\<close>

definition match_at :: "re \<Rightarrow> nat \<Rightarrow> string \<Rightarrow> (nat \<times> groups) option" where
  "match_at r i s =
     (case ms r (i, s, Map.empty) of [] \<Rightarrow> None | (j, t, g) # _ \<Rightarrow> Some (j, g))"

text \<open>A match object: the text of the whole match (\<open>group(0)\<close>) and the groups.\<close>

type_synonym match = "string \<times> groups"

definition re_match :: "re \<Rightarrow> string \<Rightarrow> match option" where
  "re_match r s = map_option (\<lambda>(j, g). (take j s, g)) (match_at r 0 s)"

definition re_fullmatch :: "re \<Rightarrow> string \<Rightarrow> match option" where
  "re_fullmatch r s =
     map_option (\<lambda>(j, t, g). (s, g)) (find (\<lambda>(j, t, g). t = []) (ms r (0, s, Map.empty)))"

fun search_from :: "re \<Rightarrow> nat \<Rightarrow> string \<Rightarrow> match option" where
  "search_from r i [] =
     (case match_at r i [] of Some (j, g) \<Rightarrow> Some ([], g) | None \<Rightarrow> None)"
| "search_from r i (c # cs) =
     (case match_at r i (c # cs) of
        Some (j, g) \<Rightarrow> Some (take (j - i) (c # cs), g)
      | None \<Rightarrow> search_from r (Suc i) cs)"

definition re_search :: "re \<Rightarrow> string \<Rightarrow> match option" where
  "re_search r s = search_from r 0 s"

text \<open>
  \<open>re.findall\<close> for a pattern without groups, and \<open>re.sub\<close> with a fixed replacement: the
  non-overlapping matches from left to right. After an empty match the scan moves on by
  one character.
\<close>

function findall_from :: "re \<Rightarrow> nat \<Rightarrow> string \<Rightarrow> string list" where
  "findall_from r i s =
     (case match_at r i s of
        None \<Rightarrow> (if s = [] then [] else findall_from r (Suc i) (tl s))
      | Some (j, g) \<Rightarrow>
          take (j - i) s #
            (if s = [] then []
             else if i < j then findall_from r j (drop (j - i) s)
             else findall_from r (Suc i) (tl s)))"
  by pat_completeness auto
termination
  by (relation "measure (\<lambda>(r, i, s). length s)") (auto simp: neq_Nil_conv)

declare findall_from.simps [simp del]

definition re_findall :: "re \<Rightarrow> string \<Rightarrow> string list" where
  "re_findall r s = findall_from r 0 s"

function sub_from :: "re \<Rightarrow> string \<Rightarrow> nat \<Rightarrow> string \<Rightarrow> string" where
  "sub_from r repl i s =
     (case match_at r i s of
        None \<Rightarrow> (if s = [] then [] else hd s # sub_from r repl (Suc i) (tl s))
      | Some (j, g) \<Rightarrow>
          repl @
            (if s = [] then []
             else if i < j then sub_from r repl j (drop (j - i) s)
             else hd s # sub_from r repl (Suc i) (tl s)))"
  by pat_completeness auto
termination
  by (relation "measure (\<lambda>(r, repl, i, s). length s)") (auto simp: neq_Nil_conv)

declare sub_from.simps [simp del]

definition re_sub :: "re \<Rightarrow> string \<Rightarrow> string \<Rightarrow> string" where
  "re_sub r repl s = sub_from r repl 0 s"

section \<open>Decimal numerals\<close>

text \<open>\<open>str(n)\<close> for a natural number, as the f-strings of the source render a count.\<close>

definition digit_char :: "nat \<Rightarrow> char" where
  "digit_char d = char_of (48 + d)"

fun str_nat :: "nat \<Rightarrow> string" where
  "str_nat n = (if n < 10 then [digit_char n] else str_nat (n div 10) @ [digit_char (n mod 10)])"

declare str_nat.simps [simp del]

section \<open>The database-info extractor\<close>

text \<open>
  \<open>extract_database_info\<close> hands an instruction to a browsing agent and parses the agent's final
  text. The agent is outside the repository: its behaviour on a homepage URL is either
  an exception (from the import, the constructor or \<open>run\<close>; the text is \<open>str(e)\<close>) or the
  value of \<open>final_result()\<close>, a string or \<open>None\<close>. The agent is a parameter of the model, a
  function from the URL to this outcome.
\<close>

datatype agent_outcome = AgentRaises string | AgentFinal "string option"

text \<open>The dictionary \<open>extracted\<close>; field \<open>x_k\<close> is the entry \<open>extracted['k']\<close>.\<close>

record extracted =
  x_name :: string
  x_prefix :: string
  x_description :: string
  x_homepage :: string
  x_example :: string
  x_pattern :: string
  x_uri_format :: string
  x_contact_name :: string
  x_contact_email :: string
  x_keywords :: "string list"

definition extracted_init :: extracted where
  "extracted_init = \<lparr> x_name = [], x_prefix = [], x_description = [], x_homepage = [],
     x_example = [], x_pattern = [], x_uri_format = [], x_contact_name = [],
     x_contact_email = [], x_keywords = [] \<rparr>"

text \<open>The returned dictionary, with its nested \<open>contact\<close>.\<close>

record contact =
  c_email :: string
  c_name :: string
  c_orcid :: string

record database_info =
  db_name :: string
  db_prefix :: string
  db_description :: string
  db_homepage :: string
  db_example :: string
  db_pattern :: string
  db_uri_format :: string
  db_keywords :: "string list"
  db_contact :: contact

text \<open>\<open>^\s*([^:]+)\s*:\s*(.*)$\<close>; the dot matches every character but the line feed.\<close>

definition line_re :: re where
  "line_re = seqs [Bol, Star (Chr is_space), Group 1 (plus_re (Chr (\<lambda>c. c \<noteq> CHR '':''))),
     Star (Chr is_space), ch CHR '':'', Star (Chr is_space),
     Group 2 (Star (Chr (\<lambda>c. c \<noteq> CHR 0x0A))), Eol]"

text \<open>\<open>[_\-\s]+\<close>\<close>

definition label_sep_re :: re where
  "label_sep_re = plus_re (Chr (\<lambda>c. c = CHR ''_'' \<or> c = CHR ''-'' \<or> is_space c))"

text \<open>\<open>[kw.strip() for kw in val.split(',') if kw.strip()][:3]\<close>\<close>

definition parse_keywords :: "string \<Rightarrow> string list" where
  "parse_keywords val = take 3 (map strip (filter (\<lambda>kw. strip kw \<noteq> []) (split_on CHR '','' val)))"

text \<open>The body of the loop over the lines: one line updates \<open>extracted\<close>.\<close>

definition group_text :: "match \<Rightarrow> nat \<Rightarrow> string" where
  "group_text m k = (case snd m k of Some s \<Rightarrow> s | None \<Rightarrow> [])"

definition parse_line :: "extracted \<Rightarrow> string \<Rightarrow> extracted" where
  "parse_line e ln =
     (case re_match line_re ln of
        None \<Rightarrow> e
      | Some m \<Rightarrow>
          (let raw_label = strip (group_text m 1);
               val = strip (group_text m 2);
               label_norm = lower (re_sub label_sep_re ''_'' raw_label)
           in if label_norm = ''name'' then e\<lparr>x_name := val\<rparr>
              else if label_norm = ''prefix'' then e\<lparr>x_prefix := lower val\<rparr>
              else if label_norm = ''description'' then e\<lparr>x_description := val\<rparr>
              else if label_norm = ''homepage'' then e\<lparr>x_homepage := val\<rparr>
              else if label_norm = ''example'' then e\<lparr>x_example := val\<rparr>
              else if label_norm = ''pattern''
                then e\<lparr>x_pattern := replace [CHR 0x5C, CHR 0x5C] [CHR 0x5C] val\<rparr>
              else if contains ''uri'' label_norm \<and> contains ''format'' label_norm
                then e\<lparr>x_uri_format := val\<rparr>
              else if label_norm = ''contact_name'' then e\<lparr>x_contact_name := val\<rparr>
              else if label_norm = ''contact_email'' then e\<lparr>x_contact_email := val\<rparr>
              else if label_norm = ''keywords'' then e\<lparr>x_keywords := parse_keywords val\<rparr>
              else e))"

text \<open>
  \<open>text = (final or "").replace('\\n', '\n')\<close>, then
  \<open>lines = [ln.strip() for ln in text.splitlines() if ln.strip()]\<close> and the loop.
\<close>

definition reply_lines :: "string option \<Rightarrow> string list" where
  "reply_lines final =
     (let text = replace [CHR 0x5C, CHR ''n''] [CHR 0x0A] (case final of None \<Rightarrow> [] | Some s \<Rightarrow> s)
      in map strip (filter (\<lambda>ln. strip ln \<noteq> []) (splitlines text)))"

definition parse_reply :: "string option \<Rightarrow> extracted" where
  "parse_reply final = foldl parse_line extracted_init (reply_lines final)"

text \<open>
  The post-processing steps. The address patterns are
  \<open>([A-Za-z0-9._%+-]+@[A-Za-z0-9.-]+\.[A-Za-z]{2,})\<close> and
  \<open>\s*[\(\[]?[A-Za-z0-9._%+-]+@[A-Za-z0-9.-]+\.[A-Za-z]{2,}[\)\]]?\s*\<close>.
\<close>

definition is_letter_az :: "char \<Rightarrow> bool" where
  "is_letter_az c = (is_upper_az c \<or> is_lower_az c)"

definition email_local :: "char \<Rightarrow> bool" where
  "email_local c = (is_alnum_ascii c \<or> c \<in> set ''._%+-'')"

definition email_domain :: "char \<Rightarrow> bool" where
  "email_domain c = (is_alnum_ascii c \<or> c \<in> set ''.-'')"

definition email_body :: "re list" where
  "email_body = [plus_re (Chr email_local), ch CHR ''@'', plus_re (Chr email_domain), ch CHR ''.'',
     Chr is_letter_az, Chr is_letter_az, Star (Chr is_letter_az)]"

definition email_re :: re where
  "email_re = Group 1 (seqs email_body)"

definition email_strip_re :: re where
  "email_strip_re =
     seqs ([Star (Chr is_space), opt (Chr (\<lambda>c. c = CHR ''('' \<or> c = CHR ''[''))] @ email_body @
           [opt (Chr (\<lambda>c. c = CHR '')'' \<or> c = CHR '']'')), Star (Chr is_space)])"

definition infer_email :: "extracted \<Rightarrow> extracted" where
  "infer_email e =
     (if x_contact_email e = [] \<and> x_contact_name e \<noteq> [] then
        (case re_search email_re (x_contact_name e) of
           None \<Rightarrow> e
         | Some m \<Rightarrow> e\<lparr>x_contact_email := group_text m 1,
                        x_contact_name := strip (re_sub email_strip_re [] (x_contact_name e))\<rparr>)
      else e)"

text \<open>\<open>^[A-Z]+\d+$\<close>, \<open>^([A-Z]+)\<close>, \<open>\d\<close> and \<open>^\d+$\<close>.\<close>

definition letters_digits_re :: re where
  "letters_digits_re = seqs [Bol, plus_re (Chr is_upper_az), plus_re (Chr is_digit), Eol]"

definition letters_re :: re where
  "letters_re = seqs [Bol, Group 1 (plus_re (Chr is_upper_az))]"

definition digit_re :: re where
  "digit_re = Chr is_digit"

definition all_digits_re :: re where
  "all_digits_re = seqs [Bol, plus_re (Chr is_digit), Eol]"

text \<open>
  In the first branch the second \<open>re.match\<close> cannot fail, the first having matched; the
  model keeps the pattern where it would.
\<close>

definition infer_pattern :: "extracted \<Rightarrow> extracted" where
  "infer_pattern e =
     (if x_pattern e = [] \<and> x_example e \<noteq> [] then
        (let example = x_example e in
         if re_match letters_digits_re example \<noteq> None then
           (case re_match letters_re example of
              None \<Rightarrow> e
            | Some m \<Rightarrow>
                (let letters = group_text m 1;
                     digits = length (re_findall digit_re example)
                 in e\<lparr>x_pattern := ''^'' @ letters @ [CHR 0x5C] @ ''d{'' @ str_nat digits @ ''}$''\<rparr>))
         else if re_match all_digits_re example \<noteq> None then
           (let digits = length example
            in e\<lparr>x_pattern := ''^'' @ [CHR 0x5C] @ ''d{'' @ str_nat digits @ ''}$''\<rparr>)
         else e)
      else e)"

definition default_homepage :: "string \<Rightarrow> extracted \<Rightarrow> extracted" where
  "default_homepage homepage_url e =
     (if x_homepage e = [] then e\<lparr>x_homepage := homepage_url\<rparr> else e)"

text \<open>\<open>''.join([w[0] for w in words if w]).lower()\<close> with \<open>words = name.split()\<close>.\<close>

definition derive_prefix :: "extracted \<Rightarrow> extracted" where
  "derive_prefix e =
     (if x_prefix e = [] \<and> x_name e \<noteq> [] then
        (let words = split_ws (x_name e)
         in e\<lparr>x_prefix := lower (map hd (filter (\<lambda>w. w \<noteq> []) words))\<rparr>)
      else e)"

definition to_database_info :: "extracted \<Rightarrow> database_info" where
  "to_database_info e = \<lparr> db_name = x_name e, db_prefix = x_prefix e,
     db_description = x_description e, db_homepage = x_homepage e, db_example = x_example e,
     db_pattern = x_pattern e, db_uri_format = x_uri_format e, db_keywords = x_keywords e,
     db_contact = \<lparr> c_email = x_contact_email e, c_name = x_contact_name e, c_orcid = [] \<rparr> \<rparr>"

text \<open>
  The function: an exception of the agent propagates (\<open>Inl\<close>); the warnings about the URI
  format only write to the log.
\<close>

definition extract_database_info ::
  "(string \<Rightarrow> agent_outcome) \<Rightarrow> string \<Rightarrow> string + database_info" where
  "extract_database_info agent homepage_url =
     (case agent homepage_url of
        AgentRaises err \<Rightarrow> Inl err
      | AgentFinal final \<Rightarrow>
          Inr (to_database_info
                (derive_prefix (default_homepage homepage_url
                  (infer_pattern (infer_email (parse_reply final)))))))"

section \<open>Values of the bibliographic service and of the request\<close>

text \<open>
  What the bibliographic service returns and what the request body holds is data of the
  shape of JSON: \<open>None\<close>, booleans, integers, strings, lists, and dictionaries with string
  keys (an association list, looked up from the left, in insertion order). Floating-point
  numbers and other objects are not modelled.
\<close>

datatype pyval =
    PNone
  | PBool bool
  | PInt int
  | PStr string
  | PList "pyval list"
  | PDict "(string \<times> pyval) list"

datatype py_exception = AttributeError | TypeError | KeyError | ValueError

fun truthy :: "pyval \<Rightarrow> bool" where
  "truthy PNone = False"
| "truthy (PBool b) = b"
| "truthy (PInt i) = (i \<noteq> 0)"
| "truthy (PStr s) = (s \<noteq> [])"
| "truthy (PList xs) = (xs \<noteq> [])"
| "truthy (PDict kvs) = (kvs \<noteq> [])"

text \<open>\<open>a or b\<close>, and \<open>d.get(k)\<close> and \<open>d.get(k, default)\<close> on the entries of a dictionary.\<close>

definition py_or :: "pyval \<Rightarrow> pyval \<Rightarrow> pyval" where
  "py_or a b = (if truthy a then a else b)"

definition get_default :: "(string \<times> pyval) list \<Rightarrow> string \<Rightarrow> pyval \<Rightarrow> pyval" where
  "get_default kvs k d = (case map_of kvs k of None \<Rightarrow> d | Some v \<Rightarrow> v)"

definition get :: "(string \<times> pyval) list \<Rightarrow> string \<Rightarrow> pyval" where
  "get kvs k = get_default kvs k PNone"

text \<open>Sequencing of steps that may raise.\<close>

definition and_then :: "'e + 'a \<Rightarrow> ('a \<Rightarrow> 'e + 'b) \<Rightarrow> 'e + 'b" where
  "and_then r f = (case r of Inl e \<Rightarrow> Inl e | Inr x \<Rightarrow> f x)"

text \<open>
  \<open>str(x)\<close>: a string is itself, anything else is its \<open>repr\<close>. The \<open>repr\<close> of a string picks
  the quote and escapes the backslash, the quote and the characters that are not
  printable (below 256: the controls, 127-160 and 173).
\<close>

definition hex_digit :: "nat \<Rightarrow> char" where
  "hex_digit d = (if d < 10 then char_of (48 + d) else char_of (87 + d))"

definition repr_char :: "char \<Rightarrow> char \<Rightarrow> string" where
  "repr_char q c =
     (if c = q \<or> c = CHR 0x5C then [CHR 0x5C, c]
      else if code c = 9 then [CHR 0x5C, CHR ''t'']
      else if code c = 10 then [CHR 0x5C, CHR ''n'']
      else if code c = 13 then [CHR 0x5C, CHR ''r'']
      else if code c < 32 \<or> (127 \<le> code c \<and> code c \<le> 160) \<or> code c = 173
        then [CHR 0x5C, CHR ''x'', hex_digit (code c div 16), hex_digit (code c mod 16)]
      else [c])"

definition repr_str :: "string \<Rightarrow> string" where
  "repr_str s =
     (let q = (if CHR 0x27 \<in> set s \<and> CHR 0x22 \<notin> set s then CHR 0x22 else CHR 0x27)
      in [q] @ concat (map (repr_char q) s) @ [q])"

definition str_int :: "int \<Rightarrow> string" where
  "str_int i = (if i < 0 then ''-'' @ str_nat (nat (- i)) else str_nat (nat i))"

fun join :: "string \<Rightarrow> string list \<Rightarrow> string" where
  "join sep [] = []"
| "join sep [x] = x"
| "join sep (x # y # ys) = x @ sep @ join sep (y # ys)"

primrec py_repr :: "pyval \<Rightarrow> string" where
  "py_repr PNone = ''None''"
| "py_repr (PBool b) = (if b then ''True'' else ''False'')"
| "py_repr (PInt i) = str_int i"
| "py_repr (PStr s) = repr_str s"
| "py_repr (PList xs) = ''['' @ join '', '' (map py_repr xs) @ '']''"
| "py_repr (PDict kvs) =
     ''{'' @ join '', '' (map (\<lambda>(k, r). repr_str k @ '': '' @ r) (map (map_prod id py_repr) kvs))
       @ ''}''"

definition py_str :: "pyval \<Rightarrow> string" where
  "py_str v = (case v of PStr s \<Rightarrow> s | _ \<Rightarrow> py_repr v)"

text \<open>
  \<open>int(x)\<close>, \<open>None\<close> where it raises: of a string, the decimal numeral with an optional
  sign, single underscores between digits, and whitespace around it. The whitespace of
  \<open>int\<close> is narrower than that of \<open>str.strip\<close>: the separators U+001C to U+001F are not
  part of it. A numeral of more than 4300 digits is refused (the interpreter's default
  limit on the conversion).
\<close>

definition is_int_space :: "char \<Rightarrow> bool" where
  "is_int_space c = (code c \<in> {9, 10, 11, 12, 13, 32, 133, 160})"

definition max_str_digits :: nat where
  "max_str_digits = 4300"

definition nat_of_digits :: "string \<Rightarrow> nat" where
  "nat_of_digits ds = foldl (\<lambda>a c. 10 * a + (code c - 48)) 0 ds"

fun numeral_body :: "string \<Rightarrow> bool" where
  "numeral_body [] = False"
| "numeral_body [c] = is_digit c"
| "numeral_body (c # d # cs) =
     (is_digit c \<and> (if d = CHR ''_'' then numeral_body cs else numeral_body (d # cs)))"

definition int_of_str :: "string \<Rightarrow> int option" where
  "int_of_str s =
     (let t = rev (dropWhile is_int_space (rev (dropWhile is_int_space s)));
          neg = (t \<noteq> [] \<and> hd t = CHR ''-'');
          body = (if t \<noteq> [] \<and> (hd t = CHR ''-'' \<or> hd t = CHR ''+'') then tl t else t)
      in if numeral_body body \<and> length (filter is_digit body) \<le> max_str_digits
         then (let n = int (nat_of_digits (filter is_digit body)) in Some (if neg then - n else n))
         else None)"

fun py_int :: "pyval \<Rightarrow> int option" where
  "py_int (PInt i) = Some i"
| "py_int (PBool b) = Some (if b then 1 else 0)"
| "py_int (PStr s) = int_of_str s"
| "py_int v = None"

section \<open>The scan for URLs\<close>

text \<open>
  \<open>raw_urls = re.findall(r"https?://[^\s\)\]]+", text)\<close> and
  \<open>urls = [re.sub(r"[\.,;:]+$", "", u) for u in raw_urls]\<close>, as written in
  \<open>extract_pubmed_metadata\<close> and again in \<open>extract\<close>.
\<close>

definition url_char :: "char \<Rightarrow> bool" where
  "url_char c = (\<not> is_space c \<and> c \<noteq> CHR '')'' \<and> c \<noteq> CHR '']'')"

definition url_re :: re where
  "url_re = seqs [lit ''http'', opt (ch CHR ''s''), lit ''://'', plus_re (Chr url_char)]"

definition is_punct :: "char \<Rightarrow> bool" where
  "is_punct c = (c \<in> set ''.,;:'')"

definition trailing_punct_re :: re where
  "trailing_punct_re = seqs [plus_re (Chr is_punct), Eol]"

definition find_urls :: "string \<Rightarrow> string list" where
  "find_urls text = map (re_sub trailing_punct_re []) (re_findall url_re text)"

section \<open>The metadata client\<close>

text \<open>
  The bibliographic service is outside the repository. Its behaviour on an identifier
  is: the import raises, the call raises (the text is \<open>str(e)\<close>), or the call returns a
  value. The service is a parameter of the model, a function from the identifier to this
  outcome.
\<close>

datatype service_outcome = ImportRaises string | FetchRaises string | FetchReturns pyval

text \<open>
  The dictionary of metadata; field \<open>pm_k\<close> is the entry under the key \<open>k\<close>. The title, the
  DOI and the first author are whatever value the service supplied.
\<close>

record metadata =
  pm_title :: pyval
  pm_doi :: pyval
  pm_abstract :: string
  pm_first_author :: pyval
  pm_pmid :: string
  pm_year :: "int option"
  pm_homepage :: string
  pm_keywords :: "string list"

text \<open>What the function returns: the dictionary \<open>{"error": ...}\<close> or the metadata.\<close>

datatype pubmed_dict = ErrorDict string | MetadataDict metadata

text \<open>\<open>authors[0]\<close> for a value that is truthy.\<close>

fun first_item :: "pyval \<Rightarrow> py_exception + pyval" where
  "first_item (PList (x # xs)) = Inr x"
| "first_item (PStr (c # cs)) = Inr (PStr [c])"
| "first_item (PDict kvs) = Inl KeyError"
| "first_item v = Inl TypeError"

definition first_author_of :: "(string \<times> pyval) list \<Rightarrow> py_exception + pyval" where
  "first_author_of item =
     (let authors = py_or (get item ''authors'') (py_or (get item ''author_list'') (PList []))
      in if truthy authors then
           and_then (first_item authors) (\<lambda>a.
             case a of
               PDict kvs \<Rightarrow> Inr (py_or (get kvs ''name'') (py_or (get kvs ''fullname'') (PStr [])))
             | _ \<Rightarrow> Inr (PStr (py_str a)))
         else Inr (PStr []))"

text \<open>\<open>(19|20)\d{2}\<close>\<close>

definition year_re :: re where
  "year_re = seqs [Group 1 (Alt (lit ''19'') (lit ''20'')), Chr is_digit, Chr is_digit]"

definition year_of :: "(string \<times> pyval) list \<Rightarrow> py_exception + int option" where
  "year_of item =
     (if truthy (get item ''year'') then Inr (py_int (get item ''year''))
      else (case py_or (get item ''pubdate'') (PStr []) of
              PStr pubdate \<Rightarrow>
                (case re_search year_re pubdate of
                   None \<Rightarrow> Inr None
                 | Some m \<Rightarrow> (case int_of_str (fst m) of
                               None \<Rightarrow> Inl ValueError
                             | Some y \<Rightarrow> Inr (Some y)))
            | _ \<Rightarrow> Inl TypeError))"

definition keywords_of :: "(string \<times> pyval) list \<Rightarrow> string list" where
  "keywords_of item =
     (let kw = py_or (get item ''keywords'') (py_or (get item ''mesh_terms'')
                 (py_or (get item ''keyword'') (get item ''subject'')))
      in if truthy kw then
           (case kw of
              PList xs \<Rightarrow> map (\<lambda>x. strip (py_str x)) (filter truthy xs)
            | _ \<Rightarrow> map strip (filter (\<lambda>k. strip k \<noteq> []) (split_on CHR '','' (py_str kw))))
         else [])"

text \<open>
  The function. An exception of the import or of the call becomes an error dictionary;
  an exception of the steps after the call propagates (\<open>Inl\<close>).
\<close>

definition extract_pubmed_metadata ::
  "(string \<Rightarrow> service_outcome) \<Rightarrow> string \<Rightarrow> py_exception + pubmed_dict" where
  "extract_pubmed_metadata service pmid =
     (case service pmid of
        ImportRaises e \<Rightarrow> Inr (ErrorDict (''INDRA import error: '' @ e))
      | FetchRaises e \<Rightarrow> Inr (ErrorDict (''PubMed fetch error: '' @ e))
      | FetchReturns raw \<Rightarrow>
          if \<not> truthy raw then Inr (ErrorDict ''No metadata returned from PubMed'')
          else
            (let item = (case raw of PDict kvs \<Rightarrow> py_or (get kvs pmid) (snd (hd kvs)) | _ \<Rightarrow> raw)
             in case item of
                  PDict it \<Rightarrow>
                    (let title = py_or (get it ''title'') (PStr []);
                         doi = py_or (get it ''doi'') (py_or (get it ''elocationid'') (PStr []));
                         abstract = py_or (get it ''abstract'') (PStr [])
                     in and_then (first_author_of it) (\<lambda>first_author.
                        and_then (year_of it) (\<lambda>year.
                          case abstract of
                            PStr abstract_text \<Rightarrow>
                              (let urls = find_urls abstract_text;
                                   homepage = (if urls \<noteq> [] then hd urls else [])
                               in Inr (MetadataDict \<lparr> pm_title = title, pm_doi = doi,
                                    pm_abstract = abstract_text, pm_first_author = first_author,
                                    pm_pmid = pmid, pm_year = year, pm_homepage = homepage,
                                    pm_keywords = keywords_of it \<rparr>))
                          | _ \<Rightarrow> Inl TypeError)))
                | _ \<Rightarrow> Inl AttributeError))"

section \<open>The record assembler\<close>

text \<open>
  The output of \<open>format_bioregistry_json\<close>: a dictionary with the one key \<open>db_key\<close>; field
  \<open>br_k\<close> is the entry under the key \<open>k\<close> of its value. The contributor's entries are the
  values the request supplied.
\<close>

record contributor_info =
  ci_email :: pyval
  ci_github :: pyval
  ci_name :: pyval
  ci_orcid :: pyval

record publication =
  pub_doi :: pyval
  pub_pubmed :: string
  pub_title :: pyval
  pub_year :: "int option"

record bioregistry =
  br_contact :: contact
  br_contributor :: contributor_info
  br_description :: string
  br_example :: string
  br_github_request_issue :: string
  br_homepage :: string
  br_keywords :: "string list"
  br_name :: string
  br_pattern :: string
  br_publications :: "publication list"
  br_uri_format :: string

text \<open>
  \<open>https?://(?:www\.)?([^/\.]+)\<close>, \<open>(?i)\s*(?:v|version)\s*\d+(?:\.\d+)*$\<close> and
  \<open>[^0-9a-zA-Z]+\<close>.
\<close>

definition domain_re :: re where
  "domain_re = seqs [lit ''http'', opt (ch CHR ''s''), lit ''://'', opt (lit ''www.''),
     Group 1 (plus_re (Chr (\<lambda>c. c \<noteq> CHR ''/'' \<and> c \<noteq> CHR ''.'')))]"

definition version_re :: re where
  "version_re = seqs [Star (Chr is_space), Alt (lit_ci ''v'') (lit_ci ''version''),
     Star (Chr is_space), plus_re (Chr is_digit), Star (Seq (ch CHR ''.'') (plus_re (Chr is_digit))),
     Eol]"

definition non_alnum_re :: re where
  "non_alnum_re = plus_re (Chr (\<lambda>c. \<not> is_alnum_ascii c))"

text \<open>The field of the database info, or the empty string when there is none.\<close>

definition db_field :: "(database_info \<Rightarrow> string) \<Rightarrow> database_info option \<Rightarrow> string" where
  "db_field f db = (case db of None \<Rightarrow> [] | Some d \<Rightarrow> f d)"

definition str_or :: "string \<Rightarrow> string \<Rightarrow> string" where
  "str_or a b = (if a \<noteq> [] then a else b)"

definition resolve_name :: "metadata \<Rightarrow> database_info option \<Rightarrow> string" where
  "resolve_name pubmed db =
     (let name = strip (db_field db_name db)
      in if name = [] then
           (let homepage = str_or (db_field db_homepage db) (pm_homepage pubmed)
            in case re_search domain_re homepage of
                 Some m \<Rightarrow> group_text m 1
               | None \<Rightarrow> ''database'')
         else name)"

definition resolve_prefix :: "string \<Rightarrow> database_info option \<Rightarrow> string" where
  "resolve_prefix name db =
     (let prefix = strip (db_field db_prefix db)
      in if prefix = [] then
           (let clean_name = strip (re_sub version_re [] name)
            in str_or (lower (re_sub non_alnum_re [] clean_name)) ''database_key'')
         else prefix)"

definition contributor_of :: "pyval \<Rightarrow> contributor_info" where
  "contributor_of contributor =
     (case contributor of
        PDict kvs \<Rightarrow>
          if kvs \<noteq> [] then
            \<lparr> ci_email = py_or (get_default kvs ''email'' (PStr [])) (PStr []),
              ci_github = py_or (get_default kvs ''github'' (PStr [])) (PStr []),
              ci_name = py_or (get_default kvs ''name'' (PStr [])) (PStr []),
              ci_orcid = py_or (get_default kvs ''orcid'' (PStr [])) (PStr []) \<rparr>
          else \<lparr> ci_email = PStr [], ci_github = PStr [], ci_name = PStr [], ci_orcid = PStr [] \<rparr>
      | _ \<Rightarrow> \<lparr> ci_email = PStr [], ci_github = PStr [], ci_name = PStr [], ci_orcid = PStr [] \<rparr>)"

text \<open>
  The function. \<open>pubmed\<close> is a dictionary of metadata: it has its eight keys, so the tests
  \<open>if pubmed\<close> hold. \<open>db\<close> is \<open>None\<close> or the dictionary of the extractor, which is not empty
  and whose \<open>contact\<close> is a dictionary that is not empty.
\<close>

definition format_bioregistry_json ::
  "metadata \<Rightarrow> database_info option \<Rightarrow> pyval \<Rightarrow> (string \<times> bioregistry) list" where
  "format_bioregistry_json pubmed db contributor =
     (let name = resolve_name pubmed db;
          prefix = resolve_prefix name db;
          db_key = prefix;
          contact = (case db of
                       None \<Rightarrow> \<lparr> c_email = [], c_name = [], c_orcid = [] \<rparr>
                     | Some d \<Rightarrow> \<lparr> c_email = c_email (db_contact d), c_name = c_name (db_contact d),
                                   c_orcid = c_orcid (db_contact d) \<rparr>);
          keywords = (if pm_keywords pubmed \<noteq> [] then pm_keywords pubmed
                      else (case db of
                              None \<Rightarrow> []
                            | Some d \<Rightarrow> if db_keywords d \<noteq> [] then db_keywords d else []));
          pub = \<lparr> pub_doi = py_or (pm_doi pubmed) (PStr []),
                  pub_pubmed = str_or (pm_pmid pubmed) [],
                  pub_title = py_or (pm_title pubmed) (PStr []),
                  pub_year = (case pm_year pubmed of
                                None \<Rightarrow> None
                              | Some y \<Rightarrow> if y \<noteq> 0 then Some y else None) \<rparr>
      in [(db_key,
           \<lparr> br_contact = contact,
             br_contributor = contributor_of contributor,
             br_description = db_field db_description db,
             br_example = db_field db_example db,
             br_github_request_issue = [],
             br_homepage = str_or (db_field db_homepage db) (pm_homepage pubmed),
             br_keywords = keywords,
             br_name = name,
             br_pattern = db_field db_pattern db,
             br_publications = [pub],
             br_uri_format = db_field db_uri_format db \<rparr>)])"

section \<open>The endpoint\<close>

text \<open>
  A response of the handler is a status code with a JSON body, or an exception that leaves
  the handler. The message of a body is a text, or \<open>str(e)\<close> of an exception the handler
  caught.
\<close>

datatype message = Text string | ExceptionText py_exception

record json_body =
  rb_status :: string
  rb_message :: "message option"
  rb_data :: "(string \<times> bioregistry) list option"

datatype response = Unhandled py_exception | Response nat json_body

text \<open>\<open>\d+\<close>\<close>

definition pmid_re :: re where
  "pmid_re = plus_re (Chr is_digit)"

text \<open>\<open>x[:50]\<close> in the log line of the title is defined on a string and on a list.\<close>

fun sliceable :: "pyval \<Rightarrow> bool" where
  "sliceable (PStr s) = True"
| "sliceable (PList xs) = True"
| "sliceable v = False"

text \<open>
  The handler \<open>extract\<close> of the route \<open>/extract\<close>. \<open>body\<close> is the value of \<open>request.get_json()\<close>. The first three statements
  are outside the \<open>try\<close>; inside it every exception becomes the last response.
\<close>

definition extract_handler ::
  "(string \<Rightarrow> service_outcome) \<Rightarrow> (string \<Rightarrow> agent_outcome) \<Rightarrow> pyval \<Rightarrow> response" where
  "extract_handler service agent body =
     (case py_or body (PDict []) of
        PDict data \<Rightarrow>
          (case py_or (get data ''pmid'') (PStr []) of
             PStr p \<Rightarrow>
               (let pmid = strip p;
                    contributor = py_or (get data ''contributor'') (PDict [])
                in if pmid = [] \<or> re_fullmatch pmid_re pmid = None then
                     Response 400 \<lparr> rb_status = ''error'',
                       rb_message = Some (Text ''Invalid PMID. Provide numeric PMID like 12345678.''),
                       rb_data = None \<rparr>
                   else
                     (case extract_pubmed_metadata service pmid of
                        Inl e \<Rightarrow> Response 500 \<lparr> rb_status = ''error'',
                                  rb_message = Some (ExceptionText e), rb_data = None \<rparr>
                      | Inr (ErrorDict err) \<Rightarrow>
                          Response 500 \<lparr> rb_status = ''error'',
                            rb_message = Some (Text err), rb_data = None \<rparr>
                      | Inr (MetadataDict pubmed) \<Rightarrow>
                          if \<not> sliceable (pm_title pubmed) then
                            Response 500 \<lparr> rb_status = ''error'',
                              rb_message = Some (ExceptionText TypeError), rb_data = None \<rparr>
                          else
                            (let urls = find_urls (pm_abstract pubmed)
                             in if urls = [] then
                                  Response 400 \<lparr> rb_status = ''error'',
                                    rb_message = Some (Text
                                      ''No homepage URL found in the PubMed abstract; cannot run browser-use scraping.''),
                                    rb_data = Some (format_bioregistry_json pubmed None contributor) \<rparr>
                                else
                                  (case extract_database_info agent (hd urls) of
                                     Inl e \<Rightarrow>
                                       Response 500 \<lparr> rb_status = ''error'',
                                         rb_message = Some (Text (''Database scraping failed: '' @ e)),
                                         rb_data = Some (format_bioregistry_json pubmed None contributor) \<rparr>
                                   | Inr db_data \<Rightarrow>
                                       Response 200 \<lparr> rb_status = ''success'',
                                         rb_message = None,
                                         rb_data = Some (format_bioregistry_json pubmed
                                                          (Some db_data) contributor) \<rparr>))))
           | _ \<Rightarrow> Unhandled AttributeError)
      | _ \<Rightarrow> Unhandled AttributeError)"

section \<open>Example inputs\<close>


text \<open>A record of the service with four keywords, and the metadata made from it.\<close>

definition kw_item :: pyval where
  "kw_item = PDict [(''title'', PStr ''T''), (''abstract'', PStr ''no link''),
     (''keywords'', PList [PStr ''a'', PStr ''b'', PStr ''c'', PStr ''d''])]"

definition kw_metadata :: metadata where
  "kw_metadata = \<lparr> pm_title = PStr ''T'', pm_doi = PStr [], pm_abstract = ''no link'',
     pm_first_author = PStr [], pm_pmid = ''1'', pm_year = None, pm_homepage = [],
     pm_keywords = [''a'', ''b'', ''c'', ''d''] \<rparr>"

text \<open>The response of the handler to a PMID that fails the validation.\<close>

definition invalid_pmid :: response where
  "invalid_pmid = Response 400 \<lparr> rb_status = ''error'',
     rb_message = Some (Text ''Invalid PMID. Provide numeric PMID like 12345678.''),
     rb_data = None \<rparr>"

text \<open>
  The shape of a record of the service on which the steps after the call do not raise:
  the abstract is a string or falsy, the authors are a list or falsy, and the year is
  truthy or the publication date is a string or falsy.
\<close>

fun is_str :: "pyval \<Rightarrow> bool" where
  "is_str (PStr s) = True"
| "is_str v = False"

fun is_list :: "pyval \<Rightarrow> bool" where
  "is_list (PList xs) = True"
| "is_list v = False"

definition record_shape :: "(string \<times> pyval) list \<Rightarrow> bool" where
  "record_shape it =
     (is_str (py_or (get it ''abstract'') (PStr [])) \<and>
      is_list (py_or (get it ''authors'') (py_or (get it ''author_list'') (PList []))) \<and>
      (truthy (get it ''year'') \<or> is_str (py_or (get it ''pubdate'') (PStr []))))"

text \<open>Services: one whose import fails, and two that return an ill-shaped record.\<close>

definition failing_import :: "string \<Rightarrow> service_outcome" where
  "failing_import p = ImportRaises ''No module named indra''"

definition none_service :: "string \<Rightarrow> service_outcome" where
  "none_service p = FetchReturns (PDict [(''123'', PNone)])"

definition number_service :: "string \<Rightarrow> service_outcome" where
  "number_service p = FetchReturns (PDict [(''123'', PDict [(''abstract'', PInt 5)])])"

text \<open>A service, an agent and a request for which the whole pipeline succeeds.\<close>

definition kegg_item :: "(string \<times> pyval) list" where
  "kegg_item = [(''title'', PStr ''KEGG''), (''doi'', PStr ''10.1/x''),
     (''abstract'', PStr ''Available at https://www.kegg.jp/.''),
     (''authors'', PList [PStr ''A B'']), (''pubdate'', PStr ''2019 Jan'')]"

definition kegg_service :: "string \<Rightarrow> service_outcome" where
  "kegg_service p = FetchReturns (PDict [(''123'', PDict kegg_item)])"

definition kegg_metadata :: metadata where
  "kegg_metadata = \<lparr> pm_title = PStr ''KEGG'', pm_doi = PStr ''10.1/x'',
     pm_abstract = ''Available at https://www.kegg.jp/.'', pm_first_author = PStr ''A B'',
     pm_pmid = ''123'', pm_year = Some 2019, pm_homepage = ''https://www.kegg.jp/'',
     pm_keywords = [] \<rparr>"

definition kegg_agent :: "string \<Rightarrow> agent_outcome" where
  "kegg_agent u = AgentFinal (Some (''Name: Kyoto Encyclopedia of Genes and Genomes'' @
     [CHR 0x0A] @ ''Example: 12345'' @ [CHR 0x0A] @ ''Keywords: genes, genomes''))"

definition kegg_db :: database_info where
  "kegg_db = \<lparr> db_name = ''Kyoto Encyclopedia of Genes and Genomes'', db_prefix = ''keogag'',
     db_description = [], db_homepage = ''https://www.kegg.jp/'', db_example = ''12345'',
     db_pattern = ''^'' @ [CHR 0x5C] @ ''d{5}$'', db_uri_format = [],
     db_keywords = [''genes'', ''genomes''],
     db_contact = \<lparr> c_email = [], c_name = [], c_orcid = [] \<rparr> \<rparr>"

definition kegg_request :: pyval where
  "kegg_request = PDict [(''pmid'', PStr '' 123 '')]"

definition kegg_record :: "(string \<times> bioregistry) list" where
  "kegg_record = [(''keogag'',
     \<lparr> br_contact = \<lparr> c_email = [], c_name = [], c_orcid = [] \<rparr>,
       br_contributor = \<lparr> ci_email = PStr [], ci_github = PStr [], ci_name = PStr [],
                          ci_orcid = PStr [] \<rparr>,
       br_description = [], br_example = ''12345'', br_github_request_issue = [],
       br_homepage = ''https://www.kegg.jp/'', br_keywords = [''genes'', ''genomes''],
       br_name = ''Kyoto Encyclopedia of Genes and Genomes'',
       br_pattern = ''^'' @ [CHR 0x5C] @ ''d{5}$'',
       br_publications = [\<lparr> pub_doi = PStr ''10.1/x'', pub_pubmed = ''123'',
                             pub_title = PStr ''KEGG'', pub_year = Some 2019 \<rparr>],
       br_uri_format = [] \<rparr>)]"

text \<open>
  The first characters of the whitespace-separated words of a string, read off the
  string itself: a character that is not whitespace and stands at the start or after
  whitespace. The flag says whether a word may start at the next character.
\<close>

fun initials_aux :: "bool \<Rightarrow> string \<Rightarrow> string" where
  "initials_aux b [] = []"
| "initials_aux b (c # cs) =
     (if is_space c then initials_aux True cs
      else if b then c # initials_aux False cs
      else initials_aux False cs)"

definition initials :: "string \<Rightarrow> string" where
  "initials s = initials_aux True s"

text \<open>An agent whose final text is one line with a name.\<close>

definition kyoto_agent :: "string \<Rightarrow> agent_outcome" where
  "kyoto_agent u = AgentFinal (Some ''Name: Kyoto Encyclopedia of Genes and Genomes'')"

text \<open>
  A string that does not end in whitespace, and a string that is letters \<open>L\<close> (capitals
  A-Z, at least one) followed by digits \<open>D\<close> (at least one).
\<close>

definition no_trailing_space :: "string \<Rightarrow> bool" where
  "no_trailing_space s = (s = [] \<or> \<not> is_space (last s))"

definition letters_then_digits :: "string \<Rightarrow> string \<Rightarrow> string \<Rightarrow> bool" where
  "letters_then_digits s L D =
     (s = L @ D \<and> L \<noteq> [] \<and> D \<noteq> [] \<and> list_all is_upper_az L \<and> list_all is_digit D)"

text \<open>Agents whose final text is one line with an example identifier.\<close>

definition abc_agent :: "string \<Rightarrow> agent_outcome" where
  "abc_agent u = AgentFinal (Some ''Example: ABC123'')"

definition digits_agent :: "string \<Rightarrow> agent_outcome" where
  "digits_agent u = AgentFinal (Some ''Example: 12345'')"

definition lowercase_agent :: "string \<Rightarrow> agent_outcome" where
  "lowercase_agent u = AgentFinal (Some ''Example: abc123'')"

text \<open>
  The scan for URLs in the words of the specification: a URL is a maximal run of
  characters other than whitespace, \<open>)\<close> and \<open>]\<close> that begins with \<open>http://\<close> or \<open>https://\<close>;
  the runs are taken from left to right, and the trailing run of \<open>.\<close>, \<open>,\<close>, \<open>;\<close>, \<open>:\<close> is
  stripped from each. The parameter \<open>n\<close> is the number of characters a run must have after
  the scheme: 0 for the specification as it is worded.
\<close>

definition strip_punct :: "string \<Rightarrow> string" where
  "strip_punct u = rev (dropWhile is_punct (rev u))"

function url_runs :: "nat \<Rightarrow> string \<Rightarrow> string list" where
  "url_runs n s =
     (if s = [] then []
      else if (prefix ''http://'' s \<and> 7 + n \<le> length (takeWhile url_char s)) \<or>
              (prefix ''https://'' s \<and> 8 + n \<le> length (takeWhile url_char s))
           then takeWhile url_char s # url_runs n (dropWhile url_char s)
           else url_runs n (tl s))"
  by pat_completeness auto
termination
proof (relation "measure (\<lambda>(n, s). length s)")
  show "wf (measure (\<lambda>(n, s). length s))" by simp
next
  fix n :: nat and s :: string
  assume "s \<noteq> []"
    and "(prefix ''http://'' s \<and> 7 + n \<le> length (takeWhile url_char s)) \<or>
         (prefix ''https://'' s \<and> 8 + n \<le> length (takeWhile url_char s))"
  then have "0 < length (takeWhile url_char s)" by auto
  moreover have "length (takeWhile url_char s) + length (dropWhile url_char s) = length s"
    by (metis length_append takeWhile_dropWhile_id)
  ultimately have "length (dropWhile url_char s) < length s" by arith
  then show "((n, dropWhile url_char s), (n, s)) \<in> measure (\<lambda>(n, s). length s)"
    by simp
next
  fix n :: nat and s :: string
  assume "s \<noteq> []"
  then show "((n, tl s), (n, s)) \<in> measure (\<lambda>(n, s). length s)" by simp
qed

declare url_runs.simps [simp del]

definition spec_find_urls :: "nat \<Rightarrow> string \<Rightarrow> string list" where
  "spec_find_urls n text = map strip_punct (url_runs n text)"

text \<open>
  A trailing version suffix, in the words of the specification (\<open>v2\<close>, \<open>version 3.1\<close>):
  optional whitespace, \<open>v\<close> or \<open>version\<close> in either case, optional whitespace, and a number
  made of groups of digits separated by single dots, at the end of the string or before
  a line feed that ends it. \<open>vnum b s\<close> reads the number; \<open>b\<close> says that a group of digits
  has just been read, so that the number may end or go on with a dot.
\<close>

fun vnum :: "bool \<Rightarrow> string \<Rightarrow> bool" where
  "vnum b [] = b"
| "vnum b (c # cs) =
     (if is_digit c then vnum True cs
      else if b \<and> c = CHR ''.'' then vnum False cs
      else b \<and> c = CHR 0x0A \<and> cs = [])"

definition ci_prefix :: "string \<Rightarrow> string \<Rightarrow> bool" where
  "ci_prefix p s = (length p \<le> length s \<and> map lower_char (take (length p) s) = map lower_char p)"

definition is_version_suffix :: "string \<Rightarrow> bool" where
  "is_version_suffix s =
     (let t = dropWhile is_space s
      in (ci_prefix ''v'' t \<and> vnum False (dropWhile is_space (drop 1 t))) \<or>
         (ci_prefix ''version'' t \<and> vnum False (dropWhile is_space (drop 7 t))))"

text \<open>The string without its trailing version suffix: cut at the first position where one starts.\<close>

fun strip_version :: "string \<Rightarrow> string" where
  "strip_version [] = []"
| "strip_version (c # cs) = (if is_version_suffix (c # cs) then [] else c # strip_version cs)"

text \<open>The prefix made from a name.\<close>

definition spec_prefix :: "string \<Rightarrow> string" where
  "spec_prefix name =
     (let p = lower (filter is_alnum_ascii (strip_version name))
      in if p = [] then ''database_key'' else p)"

text \<open>
  The name made from a homepage. At a place of the homepage where \<open>http://\<close> or \<open>https://\<close>
  begins, the label is the text after the scheme and an optional \<open>www.\<close>, up to the next dot
  or slash; when the text after \<open>www.\<close> is empty, \<open>www.\<close> is not skipped (\<open>www\<close> is the label
  of \<open>http://www./x\<close>). The name is the label at the first place of the homepage that has a
  label which is not empty, and \<open>database\<close> when the homepage has no such place.
\<close>

definition not_slash_dot :: "char \<Rightarrow> bool" where
  "not_slash_dot c = (c \<noteq> CHR ''/'' \<and> c \<noteq> CHR ''.'')"

definition label_after :: "string \<Rightarrow> string option" where
  "label_after t =
     (if prefix ''www.'' t \<and> takeWhile not_slash_dot (drop 4 t) \<noteq> []
      then Some (takeWhile not_slash_dot (drop 4 t))
      else if takeWhile not_slash_dot t \<noteq> [] then Some (takeWhile not_slash_dot t)
      else None)"

definition label_here :: "string \<Rightarrow> string option" where
  "label_here s =
     (if prefix ''https://'' s then label_after (drop 8 s)
      else if prefix ''http://'' s then label_after (drop 7 s)
      else None)"

fun find_label :: "string \<Rightarrow> string option" where
  "find_label [] = None"
| "find_label (c # cs) =
     (case label_here (c # cs) of Some l \<Rightarrow> Some l | None \<Rightarrow> find_label cs)"

definition spec_name :: "string \<Rightarrow> string" where
  "spec_name homepage = (case find_label homepage of Some l \<Rightarrow> l | None \<Rightarrow> ''database'')"

text \<open>
  The domain label in the words of the specification, for any homepage: the text between
  the scheme, if there is one, with an optional \<open>www.\<close>, and the next dot or slash.
\<close>

definition domain_label :: "string \<Rightarrow> string" where
  "domain_label h =
     (let t = (if prefix ''https://'' h then drop 8 h
               else if prefix ''http://'' h then drop 7 h else h)
      in takeWhile not_slash_dot (if prefix ''www.'' t then drop 4 t else t))"

text \<open>An agent whose reply gives a homepage without a scheme, and the database info made from it.\<close>

definition noscheme_agent :: "string \<Rightarrow> agent_outcome" where
  "noscheme_agent u = AgentFinal (Some ''Homepage: www.kegg.jp'')"

definition noscheme_db :: database_info where
  "noscheme_db = \<lparr> db_name = [], db_prefix = [], db_description = [],
     db_homepage = ''www.kegg.jp'', db_example = [], db_pattern = [], db_uri_format = [],
     db_keywords = [], db_contact = \<lparr> c_email = [], c_name = [], c_orcid = [] \<rparr> \<rparr>"

text \<open>The group \<open>(?:\.\d+)\<close> of the version pattern.\<close>

definition dot_group :: re where
  "dot_group = Seq (ch CHR ''.'') (plus_re (Chr is_digit))"

section \<open>Properties of the matcher\<close>

text \<open>The ways a repeated character class and a literal match, in closed form.\<close>

lemma upt_Suc_shift: "[0..<Suc (Suc m)] = 0 # map Suc [0..<Suc m]"
  by (simp only: map_Suc_upt upt_conv_Cons [of 0 "Suc (Suc m)"])

lemma star_aux_chr:
  "length (takeWhile P s) \<le> n \<Longrightarrow>
   star_aux (ms (Chr P)) n (i, s, g) =
     map (\<lambda>k. (i + k, drop k s, g)) (rev [0..<Suc (length (takeWhile P s))])"
proof (induction n arbitrary: i s)
  case 0
  then show ?case by simp
next
  case (Suc n)
  show ?case
  proof (cases s)
    case Nil
    then show ?thesis by simp
  next
    case (Cons c cs)
    show ?thesis
    proof (cases "P c")
      case False
      with Cons show ?thesis by simp
    next
      case True
      with Cons Suc.prems have le: "length (takeWhile P cs) \<le> n" by simp
      have "star_aux (ms (Chr P)) (Suc n) (i, s, g) =
              star_aux (ms (Chr P)) n (Suc i, cs, g) @ [(i, s, g)]"
        using Cons True by simp
      also have "\<dots> = map (\<lambda>k. (Suc i + k, drop k cs, g)) (rev [0..<Suc (length (takeWhile P cs))])
                        @ [(i, s, g)]"
        using Suc.IH [OF le] by simp
      also have "\<dots> = map (\<lambda>k. (i + k, drop k s, g)) (rev [0..<Suc (length (takeWhile P s))])"
        using Cons True by (simp add: upt_Suc_shift comp_def rev_map del: upt_Suc)
      finally show ?thesis .
    qed
  qed
qed

lemma ms_star_chr:
  "ms (Star (Chr P)) (i, s, g) =
     map (\<lambda>k. (i + k, drop k s, g)) (rev [0..<Suc (length (takeWhile P s))])"
  by (simp add: star_aux_chr length_takeWhile_le del: upt_Suc)

lemma ms_plus_chr:
  "ms (plus_re (Chr P)) (i, s, g) =
     map (\<lambda>k. (i + k, drop k s, g)) (rev [1..<Suc (length (takeWhile P s))])"
proof (cases s)
  case Nil
  then show ?thesis by (simp add: plus_re_def)
next
  case (Cons c cs)
  show ?thesis
  proof (cases "P c")
    case False
    with Cons show ?thesis by (simp add: plus_re_def)
  next
    case True
    have "[1..<Suc (Suc (length (takeWhile P cs)))] = map Suc [0..<Suc (length (takeWhile P cs))]"
      by (simp only: map_Suc_upt) simp
    with Cons True show ?thesis
      by (simp add: plus_re_def ms_star_chr comp_def rev_map del: upt_Suc ms.simps(7))
  qed
qed

lemma lit_Nil: "lit [] = Eps"
  by (simp add: lit_def)

lemma lit_Cons: "lit (c # p) = Seq (ch c) (lit p)"
  by (simp add: lit_def)

lemma ms_lit:
  "ms (lit p) (i, s, g) = (if prefix p s then [(i + length p, drop (length p) s, g)] else [])"
proof (induction p arbitrary: i s)
  case Nil
  then show ?case by (simp add: lit_Nil)
next
  case (Cons c p)
  show ?case by (cases s) (auto simp: lit_Cons ch_def Cons.IH)
qed

lemma fullmatch_plus_chr:
  "(re_fullmatch (plus_re (Chr P)) s \<noteq> None) = (s \<noteq> [] \<and> (\<forall>c\<in>set s. P c))"
proof -
  have "(re_fullmatch (plus_re (Chr P)) s \<noteq> None) =
        (\<exists>k\<in>{1..<Suc (length (takeWhile P s))}. drop k s = [])"
    by (auto simp: re_fullmatch_def ms_plus_chr find_None_iff simp del: upt_Suc)
  also have "\<dots> = (s \<noteq> [] \<and> length (takeWhile P s) = length s)"
    using length_takeWhile_le [of P s] by (cases s) auto
  also have "\<dots> = (s \<noteq> [] \<and> (\<forall>c\<in>set s. P c))"
    by (metis takeWhile_eq_all_conv length_takeWhile_le takeWhile_eq_take take_all_iff order_refl)
  finally show ?thesis .
qed

lemma ms_year:
  "ms year_re (i, s, g) =
     (if (prefix ''19'' s \<or> prefix ''20'' s) \<and> 4 \<le> length s \<and> is_digit (s ! 2) \<and> is_digit (s ! 3)
      then [(i + 4, drop 4 s, g(1 \<mapsto> take 2 s))] else [])"
  apply (simp add: year_re_def ms_lit)
  apply (cases s; simp)
  subgoal for a s1
    apply (cases s1; simp)
    subgoal for b s2
      apply (cases s2; simp)
      subgoal for c s3
        apply (cases s3; simp)
        apply auto
        done
      done
    done
  done

section \<open>Properties of the record assembler\<close>

text \<open>
  C8. Whenever the assembler is called with a dictionary of metadata, the publications of
  the output are exactly one entry, built from the DOI, the PubMed identifier, the title
  and the year of the metadata, whatever these are (an empty or null field gives an empty
  or null entry): the list is never left out and never empty.
\<close>

theorem publications_one_entry:
  "map (\<lambda>(k, r). br_publications r) (format_bioregistry_json pubmed db contributor) =
     [ [\<lparr> pub_doi = py_or (pm_doi pubmed) (PStr []),
         pub_pubmed = pm_pmid pubmed,
         pub_title = py_or (pm_title pubmed) (PStr []),
         pub_year = (case pm_year pubmed of None \<Rightarrow> None
                     | Some y \<Rightarrow> if y \<noteq> 0 then Some y else None) \<rparr>] ]"
  by (simp add: format_bioregistry_json_def Let_def str_or_def)

theorem publications_one_entry_witness:
  "map (\<lambda>(k, r). br_publications r)
     (format_bioregistry_json
        \<lparr> pm_title = PStr [], pm_doi = PNone, pm_abstract = [], pm_first_author = PStr [],
          pm_pmid = [], pm_year = None, pm_homepage = [], pm_keywords = [] \<rparr> None PNone) =
     [ [\<lparr> pub_doi = PStr [], pub_pubmed = [], pub_title = PStr [], pub_year = None \<rparr>] ]"
  using publications_one_entry [of
     "\<lparr> pm_title = PStr [], pm_doi = PNone, pm_abstract = [], pm_first_author = PStr [],
        pm_pmid = [], pm_year = None, pm_homepage = [], pm_keywords = [] \<rparr>" None PNone]
  by (simp add: py_or_def)

text \<open>
  C10. When the metadata carries a non-empty list of keywords, the keywords of the output
  are that list, unchanged and not truncated; it may have more than three entries.
\<close>

theorem metadata_keywords_verbatim:
  "pm_keywords pubmed \<noteq> [] \<Longrightarrow>
   map (\<lambda>(k, r). br_keywords r) (format_bioregistry_json pubmed db contributor) =
     [pm_keywords pubmed]"
  by (simp add: format_bioregistry_json_def Let_def)

lemma kw_metadata_extracted:
  "extract_pubmed_metadata (\<lambda>p. FetchReturns (PDict [(''1'', kw_item)])) ''1'' =
     Inr (MetadataDict kw_metadata)"
  by code_simp

theorem metadata_keywords_verbatim_witness:
  "extract_pubmed_metadata (\<lambda>p. FetchReturns (PDict [(''1'', kw_item)])) ''1'' =
     Inr (MetadataDict kw_metadata) \<and>
   pm_keywords kw_metadata \<noteq> [] \<and>
   map (\<lambda>(k, r). br_keywords r) (format_bioregistry_json kw_metadata None PNone) =
     [ [''a'', ''b'', ''c'', ''d''] ] \<and>
   3 < length (pm_keywords kw_metadata)"
  using metadata_keywords_verbatim [of kw_metadata None PNone] kw_metadata_extracted
  by (simp add: kw_metadata_def)

section \<open>Properties of the database-info extractor\<close>














section \<open>Properties of the metadata client\<close>

lemma fullmatch_plus_chr_None:
  "(re_fullmatch (plus_re (Chr P)) s = None) = (s = [] \<or> (\<exists>c\<in>set s. \<not> P c))"
  using fullmatch_plus_chr [of P s] by blast

lemma digit_not_int_space: "is_digit c \<Longrightarrow> \<not> is_int_space c"
  by (auto simp: is_digit_def is_int_space_def)

lemma digit_not_sign: "is_digit c \<Longrightarrow> c \<noteq> CHR ''-'' \<and> c \<noteq> CHR ''+'' \<and> c \<noteq> CHR ''_''"
  by (auto simp: is_digit_def code_def)

lemma digits_19_20: "prefix ''19'' s \<or> prefix ''20'' s \<Longrightarrow> is_digit (s ! 0) \<and> is_digit (s ! 1)"
  by (auto simp: is_digit_def code_def prefix_def)

lemma int_of_str_four_digits:
  assumes "is_digit a" "is_digit b" "is_digit c" "is_digit d"
  shows "int_of_str [a, b, c, d] \<noteq> None"
  using assms digit_not_int_space [of a] digit_not_int_space [of d] digit_not_sign [of a]
    digit_not_sign [of b] digit_not_sign [of c] digit_not_sign [of d]
  by (simp add: int_of_str_def max_str_digits_def Let_def)

lemma year_match_digits:
  assumes "prefix ''19'' s \<or> prefix ''20'' s" and "4 \<le> length s"
    and "is_digit (s ! 2)" and "is_digit (s ! 3)"
  shows "int_of_str (take 4 s) \<noteq> None"
proof -
  from assms(2) obtain a b c d rest where s: "s = a # b # c # d # rest"
    by (auto simp: numeral_eq_Suc Suc_le_length_iff)
  from digits_19_20 [OF assms(1)] s have "is_digit a" "is_digit b" by simp_all
  moreover from assms(3,4) s have "is_digit c" "is_digit d" by simp_all
  ultimately have "int_of_str [a, b, c, d] \<noteq> None" by (rule int_of_str_four_digits)
  with s show ?thesis by simp
qed

lemma match_at_year:
  "match_at year_re i s =
     (if (prefix ''19'' s \<or> prefix ''20'' s) \<and> 4 \<le> length s \<and> is_digit (s ! 2) \<and> is_digit (s ! 3)
      then Some (i + 4, [1 \<mapsto> take 2 s]) else None)"
  by (simp add: match_at_def ms_year)

lemma search_year:
  "search_from year_re i s = Some m \<Longrightarrow> int_of_str (fst m) \<noteq> None"
proof (induction s arbitrary: i)
  case Nil
  then show ?case by (simp add: match_at_year)
next
  case (Cons c cs)
  let ?s = "c # cs"
  show ?case
  proof (cases "(prefix ''19'' ?s \<or> prefix ''20'' ?s) \<and> 4 \<le> length ?s \<and> is_digit (?s ! 2) \<and> is_digit (?s ! 3)")
    case True
    have "match_at year_re i ?s = Some (i + 4, [1 \<mapsto> take 2 ?s])"
      by (subst match_at_year, rule if_P, rule True)
    with Cons.prems have "fst m = take 4 ?s" by auto
    moreover from True have "int_of_str (take 4 ?s) \<noteq> None"
      by (intro year_match_digits) blast+
    ultimately show ?thesis by simp
  next
    case False
    have "match_at year_re i ?s = None"
      by (subst match_at_year, rule if_not_P, rule False)
    with Cons.prems have "search_from year_re (Suc i) cs = Some m" by simp
    then show ?thesis by (rule Cons.IH)
  qed
qed

lemma first_author_ok:
  "py_or (get it ''authors'') (py_or (get it ''author_list'') (PList [])) = PList xs \<Longrightarrow>
   \<exists>a. first_author_of it = Inr a"
  by (cases xs) (simp_all add: first_author_of_def Let_def and_then_def split: pyval.splits)

lemma year_ok:
  assumes "truthy (get it ''year'') \<or> (\<exists>d. py_or (get it ''pubdate'') (PStr []) = PStr d)"
  shows "\<exists>y. year_of it = Inr y"
proof (cases "truthy (get it ''year'')")
  case True
  then show ?thesis by (simp add: year_of_def)
next
  case False
  with assms obtain d where d: "py_or (get it ''pubdate'') (PStr []) = PStr d" by blast
  show ?thesis
  proof (cases "re_search year_re d")
    case None
    with False d show ?thesis by (simp add: year_of_def)
  next
    case (Some m)
    then have "int_of_str (fst m) \<noteq> None"
      unfolding re_search_def by (rule search_year)
    with False d Some show ?thesis by (auto simp: year_of_def)
  qed
qed

lemma is_str_conv: "is_str v = (\<exists>s. v = PStr s)"
  by (cases v) simp_all

lemma is_list_conv: "is_list v = (\<exists>xs. v = PList xs)"
  by (cases v) simp_all

text \<open>
  C3, as the code has it. An exception of the import or of the call to the service never
  leaves \<open>extract_pubmed_metadata\<close>: it becomes a dictionary with the key \<open>error\<close>, and so
  does a falsy answer of the service. When the service returns a non-empty dictionary
  whose record for the identifier is a dictionary of the shape \<open>record_shape\<close>, the function
  returns the dictionary of metadata, with the identifier that was asked for.
\<close>

theorem metadata_client_results:
  "(service pmid = ImportRaises e \<longrightarrow>
      extract_pubmed_metadata service pmid = Inr (ErrorDict (''INDRA import error: '' @ e))) \<and>
   (service pmid = FetchRaises e \<longrightarrow>
      extract_pubmed_metadata service pmid = Inr (ErrorDict (''PubMed fetch error: '' @ e))) \<and>
   (service pmid = FetchReturns raw \<and> \<not> truthy raw \<longrightarrow>
      extract_pubmed_metadata service pmid = Inr (ErrorDict ''No metadata returned from PubMed'')) \<and>
   (service pmid = FetchReturns (PDict kvs) \<and> kvs \<noteq> [] \<and>
    py_or (get kvs pmid) (snd (hd kvs)) = PDict it \<and> record_shape it \<longrightarrow>
      (\<exists>m. extract_pubmed_metadata service pmid = Inr (MetadataDict m) \<and> pm_pmid m = pmid))"
proof (intro conjI impI)
  assume "service pmid = ImportRaises e"
  then show "extract_pubmed_metadata service pmid = Inr (ErrorDict (''INDRA import error: '' @ e))"
    by (simp add: extract_pubmed_metadata_def)
next
  assume "service pmid = FetchRaises e"
  then show "extract_pubmed_metadata service pmid = Inr (ErrorDict (''PubMed fetch error: '' @ e))"
    by (simp add: extract_pubmed_metadata_def)
next
  assume "service pmid = FetchReturns raw \<and> \<not> truthy raw"
  then show "extract_pubmed_metadata service pmid = Inr (ErrorDict ''No metadata returned from PubMed'')"
    by (simp add: extract_pubmed_metadata_def)
next
  assume a: "service pmid = FetchReturns (PDict kvs) \<and> kvs \<noteq> [] \<and>
    py_or (get kvs pmid) (snd (hd kvs)) = PDict it \<and> record_shape it"
  then obtain abs where abs: "py_or (get it ''abstract'') (PStr []) = PStr abs"
    by (auto simp: record_shape_def is_str_conv is_list_conv)
  from a obtain fa where fa: "first_author_of it = Inr fa"
    using first_author_ok [of it] by (auto simp: record_shape_def is_str_conv is_list_conv)
  from a obtain y where y: "year_of it = Inr y"
    using year_ok [of it] by (auto simp: record_shape_def is_str_conv is_list_conv)
  from a abs fa y
  show "\<exists>m. extract_pubmed_metadata service pmid = Inr (MetadataDict m) \<and> pm_pmid m = pmid"
    by (simp add: extract_pubmed_metadata_def Let_def and_then_def)
qed

section \<open>Properties of the endpoint\<close>

text \<open>
  C2, as the code has it. For a request body that is a dictionary (or falsy) and whose
  \<open>pmid\<close> is a string (or falsy), the handler answers with the response \<open>invalid_pmid\<close>
  (status 400 and the fixed message) exactly when the \<open>pmid\<close>, stripped of the whitespace
  around it, is not a string of one or more digits.
\<close>

theorem pmid_validation:
  assumes "py_or body (PDict []) = PDict data"
    and "py_or (get data ''pmid'') (PStr []) = PStr p"
  shows "(extract_handler service agent body = invalid_pmid) =
         (\<not> (strip p \<noteq> [] \<and> (\<forall>c\<in>set (strip p). is_digit c)))"
  using assms
  by (auto simp: extract_handler_def invalid_pmid_def pmid_re_def fullmatch_plus_chr_None Let_def
      split: sum.splits pubmed_dict.splits)

text \<open>
  C1, as the code has it. For a request whose \<open>pmid\<close> passes the validation: an error
  dictionary of the metadata client gives 500 with its message and no data; an exception
  inside the \<open>try\<close> (of the metadata client, or of the log line that slices a title that
  is neither a string nor a list) gives 500 with the text of the exception and no data;
  no URL in the abstract gives 400 with the record assembled without database info as
  data; an exception of the extractor gives 500 with its text in the message and the same
  partial record; otherwise the answer is 200, \<open>success\<close>, and the record assembled from
  the metadata and the database info.
\<close>

theorem handler_responses:
  assumes "py_or body (PDict []) = PDict data"
    and "py_or (get data ''pmid'') (PStr []) = PStr p"
    and "strip p \<noteq> []" and "\<forall>c\<in>set (strip p). is_digit c"
  shows
   "(extract_pubmed_metadata service (strip p) = Inr (ErrorDict err) \<longrightarrow>
       extract_handler service agent body =
         Response 500 \<lparr> rb_status = ''error'', rb_message = Some (Text err), rb_data = None \<rparr>) \<and>
    (extract_pubmed_metadata service (strip p) = Inl e \<longrightarrow>
       extract_handler service agent body =
         Response 500 \<lparr> rb_status = ''error'', rb_message = Some (ExceptionText e), rb_data = None \<rparr>) \<and>
    (extract_pubmed_metadata service (strip p) = Inr (MetadataDict m) \<and> \<not> sliceable (pm_title m) \<longrightarrow>
       extract_handler service agent body =
         Response 500 \<lparr> rb_status = ''error'', rb_message = Some (ExceptionText TypeError),
           rb_data = None \<rparr>) \<and>
    (extract_pubmed_metadata service (strip p) = Inr (MetadataDict m) \<and> sliceable (pm_title m) \<and>
     find_urls (pm_abstract m) = [] \<longrightarrow>
       extract_handler service agent body =
         Response 400 \<lparr> rb_status = ''error'',
           rb_message = Some (Text
             ''No homepage URL found in the PubMed abstract; cannot run browser-use scraping.''),
           rb_data = Some (format_bioregistry_json m None
                            (py_or (get data ''contributor'') (PDict []))) \<rparr>) \<and>
    (extract_pubmed_metadata service (strip p) = Inr (MetadataDict m) \<and> sliceable (pm_title m) \<and>
     find_urls (pm_abstract m) \<noteq> [] \<and> agent (hd (find_urls (pm_abstract m))) = AgentRaises x \<longrightarrow>
       extract_handler service agent body =
         Response 500 \<lparr> rb_status = ''error'',
           rb_message = Some (Text (''Database scraping failed: '' @ x)),
           rb_data = Some (format_bioregistry_json m None
                            (py_or (get data ''contributor'') (PDict []))) \<rparr>) \<and>
    (extract_pubmed_metadata service (strip p) = Inr (MetadataDict m) \<and> sliceable (pm_title m) \<and>
     find_urls (pm_abstract m) \<noteq> [] \<and>
     extract_database_info agent (hd (find_urls (pm_abstract m))) = Inr db \<longrightarrow>
       extract_handler service agent body =
         Response 200 \<lparr> rb_status = ''success'', rb_message = None,
           rb_data = Some (format_bioregistry_json m (Some db)
                            (py_or (get data ''contributor'') (PDict []))) \<rparr>)"
  using assms
  by (auto simp: extract_handler_def pmid_re_def fullmatch_plus_chr_None Let_def
      extract_database_info_def)

lemma kegg_metadata_extracted:
  "extract_pubmed_metadata kegg_service ''123'' = Inr (MetadataDict kegg_metadata)"
  by code_simp

lemma kegg_urls: "find_urls (pm_abstract kegg_metadata) = [''https://www.kegg.jp/'']"
  by code_simp

lemma kegg_db_extracted: "extract_database_info kegg_agent ''https://www.kegg.jp/'' = Inr kegg_db"
  by code_simp

lemma kegg_assembled: "format_bioregistry_json kegg_metadata (Some kegg_db) (PDict []) = kegg_record"
  by code_simp

lemma kegg_request_pmid:
  "py_or kegg_request (PDict []) = PDict [(''pmid'', PStr '' 123 '')] \<and>
   py_or (get [(''pmid'', PStr '' 123 '')] ''pmid'') (PStr []) = PStr '' 123 '' \<and>
   py_or (get [(''pmid'', PStr '' 123 '')] ''contributor'') (PDict []) = PDict [] \<and>
   strip '' 123 '' = ''123'' \<and> (\<forall>c\<in>set ''123''. is_digit c)"
  by (simp add: kegg_request_def py_or_def get_def get_default_def strip_def is_space_def
      is_digit_def code_def)

theorem handler_responses_witness:
  "py_or kegg_request (PDict []) = PDict [(''pmid'', PStr '' 123 '')] \<and>
   py_or (get [(''pmid'', PStr '' 123 '')] ''pmid'') (PStr []) = PStr '' 123 '' \<and>
   strip '' 123 '' \<noteq> [] \<and> list_all is_digit (strip '' 123 '') \<and>
   extract_pubmed_metadata kegg_service (strip '' 123 '') = Inr (MetadataDict kegg_metadata) \<and>
   sliceable (pm_title kegg_metadata) \<and> find_urls (pm_abstract kegg_metadata) \<noteq> [] \<and>
   extract_database_info kegg_agent (hd (find_urls (pm_abstract kegg_metadata))) = Inr kegg_db \<and>
   extract_handler kegg_service kegg_agent kegg_request =
     Response 200 \<lparr> rb_status = ''success'', rb_message = None, rb_data = Some kegg_record \<rparr>"
  using handler_responses [of kegg_request "[(''pmid'', PStr '' 123 '')]" "'' 123 ''"
      kegg_service _ kegg_agent _ kegg_metadata _ kegg_db]
    kegg_request_pmid kegg_metadata_extracted kegg_urls kegg_db_extracted kegg_assembled
  by (simp add: kegg_metadata_def list_all_iff)

text \<open>
  The metadata client raises on a record whose abstract is a number: its result carries
  no error field, none of the three failures of C1 applies, and the response is 500.
\<close>

theorem handler_unexpected_error:
  "extract_pubmed_metadata number_service ''123'' = Inl TypeError \<and>
   extract_handler number_service kegg_agent (PDict [(''pmid'', PStr ''123'')]) =
     Response 500 \<lparr> rb_status = ''error'', rb_message = Some (ExceptionText TypeError),
       rb_data = None \<rparr>"
  by code_simp

theorem pmid_validation_witness:
  "py_or kegg_request (PDict []) = PDict [(''pmid'', PStr '' 123 '')] \<and>
   py_or (get [(''pmid'', PStr '' 123 '')] ''pmid'') (PStr []) = PStr '' 123 '' \<and>
   extract_handler kegg_service kegg_agent kegg_request \<noteq> invalid_pmid"
  using pmid_validation [of kegg_request "[(''pmid'', PStr '' 123 '')]" "'' 123 ''"
      kegg_service kegg_agent] kegg_request_pmid
  by simp

text \<open>
  A \<open>pmid\<close> with blanks around the digits is not a string of digits, and is accepted: the
  response is the one of the failing import, not \<open>invalid_pmid\<close>.
\<close>

theorem pmid_with_spaces_accepted:
  "\<not> is_digit (hd '' 123 '') \<and>
   extract_handler failing_import kegg_agent (PDict [(''pmid'', PStr '' 123 '')]) =
     Response 500 \<lparr> rb_status = ''error'',
       rb_message = Some (Text ''INDRA import error: No module named indra''), rb_data = None \<rparr>"
  by code_simp

text \<open>
  The service returns a dictionary whose record for the identifier is \<open>None\<close>: the
  attribute error of \<open>item.get\<close> leaves the function.
\<close>

theorem metadata_client_raises:
  "extract_pubmed_metadata none_service ''123'' = Inl AttributeError"
  by code_simp

theorem metadata_client_results_witness:
  "kegg_service ''123'' = FetchReturns (PDict [(''123'', PDict kegg_item)]) \<and>
   py_or (get [(''123'', PDict kegg_item)] ''123'') (snd (hd [(''123'', PDict kegg_item)])) =
     PDict kegg_item \<and>
   record_shape kegg_item \<and>
   (\<exists>m. extract_pubmed_metadata kegg_service ''123'' = Inr (MetadataDict m) \<and> pm_pmid m = ''123'')"
proof -
  have 1: "kegg_service ''123'' = FetchReturns (PDict [(''123'', PDict kegg_item)])"
    by (simp add: kegg_service_def)
  have 2: "py_or (get [(''123'', PDict kegg_item)] ''123'') (snd (hd [(''123'', PDict kegg_item)])) =
     PDict kegg_item"
    by (simp add: py_or_def get_def get_default_def kegg_item_def)
  have 3: "record_shape kegg_item"
    by (simp add: record_shape_def kegg_item_def py_or_def get_def get_default_def)
  from 1 2 3 metadata_client_results [of kegg_service "''123''" _ _ "[(''123'', PDict kegg_item)]" kegg_item]
  show ?thesis by simp
qed

section \<open>The derived prefix and the inferred pattern\<close>

lemma split_ws_aux_initials:
  "map hd (filter (\<lambda>w. w \<noteq> []) (split_ws_aux cur s)) =
     (if cur = [] then initials_aux True s else last cur # initials_aux False s)"
proof (induction s arbitrary: cur)
  case Nil
  then show ?case by (simp add: hd_rev)
next
  case (Cons c cs)
  then show ?case by (simp add: hd_rev)
qed

lemma split_ws_initials: "map hd (filter (\<lambda>w. w \<noteq> []) (split_ws s)) = initials s"
  by (simp add: split_ws_def initials_def split_ws_aux_initials)

lemma split_ws_aux_nonempty: "[] \<notin> set (split_ws_aux cur s)"
  by (induction s arbitrary: cur) auto

lemma split_ws_words: "map hd (filter (\<lambda>w. w \<noteq> []) (split_ws s)) = map hd (split_ws s)"
proof -
  have "filter (\<lambda>w. w \<noteq> []) (split_ws s) = split_ws s"
    using split_ws_aux_nonempty [of "[]" s] by (auto simp: split_ws_def filter_id_conv)
  then show ?thesis by simp
qed

lemma x_name_post:
  "x_name (default_homepage u (infer_pattern (infer_email e))) = x_name e"
  by (simp add: default_homepage_def infer_pattern_def infer_email_def Let_def split: option.splits)

lemma x_prefix_post:
  "x_prefix (default_homepage u (infer_pattern (infer_email e))) = x_prefix e"
  by (simp add: default_homepage_def infer_pattern_def infer_email_def Let_def split: option.splits)

text \<open>
  C6. Whenever the parsed prefix is empty and the parsed name is not, the prefix of the
  returned record is the lowercased string of the first characters of the
  whitespace-separated words of the name: of the characters of the name that are not
  whitespace and stand at its start or after whitespace. The name
  \<open>Kyoto Encyclopedia of Genes and Genomes\<close> gives \<open>keogag\<close>.
\<close>

theorem prefix_from_initials:
  assumes "agent homepage_url = AgentFinal final"
    and "x_prefix (parse_reply final) = []" and "x_name (parse_reply final) \<noteq> []"
  shows "\<exists>db. extract_database_info agent homepage_url = Inr db \<and>
           db_name db = x_name (parse_reply final) \<and>
           db_prefix db = lower (map hd (split_ws (db_name db))) \<and>
           db_prefix db = lower (initials (db_name db))"
  using assms
  by (simp add: extract_database_info_def to_database_info_def derive_prefix_def
      x_name_post x_prefix_post Let_def split_ws_initials split_ws_words [symmetric])

lemma kyoto_parsed:
  "x_prefix (parse_reply (Some ''Name: Kyoto Encyclopedia of Genes and Genomes'')) = [] \<and>
   x_name (parse_reply (Some ''Name: Kyoto Encyclopedia of Genes and Genomes'')) =
     ''Kyoto Encyclopedia of Genes and Genomes''"
  by code_simp

lemma kyoto_initials: "lower (initials ''Kyoto Encyclopedia of Genes and Genomes'') = ''keogag''"
  by code_simp

theorem prefix_from_initials_witness:
  "kyoto_agent ''http://h.org'' = AgentFinal (Some ''Name: Kyoto Encyclopedia of Genes and Genomes'') \<and>
   x_prefix (parse_reply (Some ''Name: Kyoto Encyclopedia of Genes and Genomes'')) = [] \<and>
   x_name (parse_reply (Some ''Name: Kyoto Encyclopedia of Genes and Genomes'')) \<noteq> [] \<and>
   (\<exists>db. extract_database_info kyoto_agent ''http://h.org'' = Inr db \<and>
         db_name db = ''Kyoto Encyclopedia of Genes and Genomes'' \<and> db_prefix db = ''keogag'')"
  using prefix_from_initials [of kyoto_agent "''http://h.org''"
      "Some ''Name: Kyoto Encyclopedia of Genes and Genomes''"] kyoto_parsed kyoto_initials
  by (auto simp: kyoto_agent_def)

lemma takeWhile_nth_class: "k < length (takeWhile P s) \<Longrightarrow> P (s ! k) \<and> k < length s"
  by (metis length_takeWhile_le nth_mem order_less_le_trans set_takeWhileD takeWhile_nth)

lemma drop_starts: "k < length (takeWhile P s) \<Longrightarrow> \<exists>t. drop k s = s ! k # t \<and> P (s ! k)"
  using takeWhile_nth_class [of k P s] by (metis Cons_nth_drop_Suc)

lemma upper_not_digit: "is_upper_az c \<Longrightarrow> \<not> is_digit c"
  by (simp add: is_upper_az_def is_digit_def)

lemma LF_not_digit: "\<not> is_digit (CHR 0x0A)"
  by (simp add: is_digit_def code_def)

lemma LF_space: "is_space (CHR 0x0A)"
  by (simp add: is_space_def code_def)

lemma re_match_None: "(re_match r s = None) = (ms r (0, s, Map.empty) = [])"
  by (auto simp: re_match_def match_at_def split: list.splits)

lemma findall_chr: "findall_from (Chr P) i s = map (\<lambda>c. [c]) (filter P s)"
proof (induction s arbitrary: i)
  case Nil
  then show ?case by (subst findall_from.simps) (simp add: match_at_def)
next
  case (Cons c cs)
  then show ?case by (subst findall_from.simps) (simp add: match_at_def)
qed

lemma ms_Seq_nonempty: "(ms (Seq a b) st \<noteq> []) = (\<exists>st'\<in>set (ms a st). ms b st' \<noteq> [])"
  by (auto simp: concat_eq_Nil_conv)

lemma bex_ms_plus_chr:
  "(\<exists>st'\<in>set (ms (plus_re (Chr P)) (i, s, g)). Q st') =
     (\<exists>k. 1 \<le> k \<and> k \<le> length (takeWhile P s) \<and> Q (i + k, drop k s, g))"
  by (auto simp: ms_plus_chr simp del: upt_Suc)

lemma ms_Eol_nonempty: "(ms Eol (i, s, g) \<noteq> []) = (s = [] \<or> s = [CHR 0x0A])"
  by simp

lemma plus_then_eol:
  assumes "\<not> P (CHR 0x0A)"
  shows "(ms (Seq (plus_re (Chr P)) Eol) (i, s, g) \<noteq> []) =
     (takeWhile P s \<noteq> [] \<and> (dropWhile P s = [] \<or> dropWhile P s = [CHR 0x0A]))"
proof -
  let ?n = "length (takeWhile P s)"
  have "(ms (Seq (plus_re (Chr P)) Eol) (i, s, g) \<noteq> []) =
        (\<exists>k. 1 \<le> k \<and> k \<le> ?n \<and> (drop k s = [] \<or> drop k s = [CHR 0x0A]))"
    by (simp only: ms_Seq_nonempty bex_ms_plus_chr ms_Eol_nonempty)
  also have "\<dots> = (1 \<le> ?n \<and> (drop ?n s = [] \<or> drop ?n s = [CHR 0x0A]))"
  proof
    assume "\<exists>k. 1 \<le> k \<and> k \<le> ?n \<and> (drop k s = [] \<or> drop k s = [CHR 0x0A])"
    then obtain k where k: "1 \<le> k" "k \<le> ?n" "drop k s = [] \<or> drop k s = [CHR 0x0A]" by blast
    have "k = ?n"
    proof (rule ccontr)
      assume "k \<noteq> ?n"
      with k have "k < ?n" by simp
      from drop_starts [OF this] k(3) assms show False by auto
    qed
    with k show "1 \<le> ?n \<and> (drop ?n s = [] \<or> drop ?n s = [CHR 0x0A])" by simp
  next
    assume "1 \<le> ?n \<and> (drop ?n s = [] \<or> drop ?n s = [CHR 0x0A])"
    then show "\<exists>k. 1 \<le> k \<and> k \<le> ?n \<and> (drop k s = [] \<or> drop k s = [CHR 0x0A])" by blast
  qed
  also have "\<dots> = (takeWhile P s \<noteq> [] \<and> (dropWhile P s = [] \<or> dropWhile P s = [CHR 0x0A]))"
    by (simp add: dropWhile_eq_drop Suc_le_eq)
  finally show ?thesis .
qed

lemma all_digits_match:
  "(re_match all_digits_re s \<noteq> None) =
     (takeWhile is_digit s \<noteq> [] \<and> (dropWhile is_digit s = [] \<or> dropWhile is_digit s = [CHR 0x0A]))"
proof -
  have "ms all_digits_re (0, s, Map.empty) = ms (Seq (plus_re (Chr is_digit)) Eol) (0, s, Map.empty)"
    by (simp add: all_digits_re_def)
  then show ?thesis
    by (simp only: re_match_None plus_then_eol [of is_digit, OF LF_not_digit])
qed

lemma letters_digits_match:
  "(re_match letters_digits_re s \<noteq> None) =
     (takeWhile is_upper_az s \<noteq> [] \<and> takeWhile is_digit (dropWhile is_upper_az s) \<noteq> [] \<and>
      (dropWhile is_digit (dropWhile is_upper_az s) = [] \<or>
       dropWhile is_digit (dropWhile is_upper_az s) = [CHR 0x0A]))"
proof -
  let ?m = "length (takeWhile is_upper_az s)"
  let ?Q = "\<lambda>t. takeWhile is_digit t \<noteq> [] \<and> (dropWhile is_digit t = [] \<or> dropWhile is_digit t = [CHR 0x0A])"
  have "ms letters_digits_re (0, s, Map.empty) =
        ms (Seq (plus_re (Chr is_upper_az)) (Seq (plus_re (Chr is_digit)) Eol)) (0, s, Map.empty)"
    by (simp add: letters_digits_re_def)
  then have "(re_match letters_digits_re s \<noteq> None) = (\<exists>k. 1 \<le> k \<and> k \<le> ?m \<and> ?Q (drop k s))"
    by (simp only: re_match_None ms_Seq_nonempty [of "plus_re (Chr is_upper_az)"] bex_ms_plus_chr
        plus_then_eol [of is_digit, OF LF_not_digit])
  also have "\<dots> = (1 \<le> ?m \<and> ?Q (drop ?m s))"
  proof
    assume "\<exists>k. 1 \<le> k \<and> k \<le> ?m \<and> ?Q (drop k s)"
    then obtain k where k: "1 \<le> k" "k \<le> ?m" "?Q (drop k s)" by blast
    have "k = ?m"
    proof (rule ccontr)
      assume "k \<noteq> ?m"
      with k have "k < ?m" by simp
      from drop_starts [OF this] obtain t where "drop k s = s ! k # t" "is_upper_az (s ! k)" by blast
      with k(3) show False by (simp add: upper_not_digit)
    qed
    with k show "1 \<le> ?m \<and> ?Q (drop ?m s)" by simp
  next
    assume "1 \<le> ?m \<and> ?Q (drop ?m s)"
    then show "\<exists>k. 1 \<le> k \<and> k \<le> ?m \<and> ?Q (drop k s)" by blast
  qed
  also have "\<dots> = (takeWhile is_upper_az s \<noteq> [] \<and> ?Q (dropWhile is_upper_az s))"
    by (simp add: dropWhile_eq_drop Suc_le_eq)
  finally show ?thesis .
qed

lemma match_letters:
  assumes "takeWhile is_upper_az s \<noteq> []"
  shows "re_match letters_re s = Some (takeWhile is_upper_az s, [1 \<mapsto> takeWhile is_upper_az s])"
proof -
  let ?m = "length (takeWhile is_upper_az s)"
  from assms have m: "1 \<le> ?m" by (simp add: Suc_le_eq)
  then have "[1..<Suc ?m] = [1..<?m] @ [?m]" by (rule upt_Suc_append)
  then have "rev [1..<Suc ?m] = ?m # rev [1..<?m]"
    by (simp only: rev_append rev.simps append_Nil append_Cons)
  then have "ms (plus_re (Chr is_upper_az)) (0, s, Map.empty) =
      map (\<lambda>k. (0 + k, drop k s, Map.empty)) (?m # rev [1..<?m])"
    by (simp only: ms_plus_chr)
  moreover have "ms letters_re (0, s, Map.empty) =
      map (\<lambda>(j, t, h). (j, t, h(1 \<mapsto> take (j - 0) s)))
        (ms (plus_re (Chr is_upper_az)) (0, s, Map.empty))"
    by (simp add: letters_re_def)
  ultimately have "match_at letters_re 0 s = Some (?m, [1 \<mapsto> take ?m s])"
    by (simp add: match_at_def)
  then show ?thesis
    by (simp add: re_match_def takeWhile_eq_take [symmetric])
qed

lemma takeWhile_all_nonempty: "xs \<noteq> [] \<Longrightarrow> \<forall>x\<in>set xs. P x \<Longrightarrow> takeWhile P xs \<noteq> []"
  by (cases xs) auto

lemma letters_then_digits_takeWhile:
  assumes "letters_then_digits s L D"
  shows "takeWhile is_upper_az s = L" and "dropWhile is_upper_az s = D"
    and "takeWhile is_digit D = D" and "dropWhile is_digit D = []"
    and "filter is_digit s = D"
proof -
  from assms have s: "s = L @ D" and L: "\<forall>c\<in>set L. is_upper_az c" and D: "\<forall>c\<in>set D. is_digit c"
    and ne: "D \<noteq> []"
    by (simp_all add: letters_then_digits_def list_all_iff)
  from ne D obtain d ds where d: "D = d # ds" "is_digit d" by (cases D) auto
  then have nd: "\<not> is_upper_az d" using upper_not_digit by blast
  from L d nd s show "takeWhile is_upper_az s = L" by (simp add: takeWhile_append2)
  from L d nd s show "dropWhile is_upper_az s = D" by (simp add: dropWhile_append2)
  from D show "takeWhile is_digit D = D" by (simp add: takeWhile_eq_all_conv)
  from D show "dropWhile is_digit D = []" by simp
  from L have "filter is_digit L = []" by (auto simp: filter_empty_conv upper_not_digit)
  moreover from D have "filter is_digit D = D" by (simp add: filter_id_conv)
  ultimately show "filter is_digit s = D" using s by simp
qed

lemma letters_digits_shape:
  assumes "s = [] \<or> \<not> is_space (last s)"
  shows "(re_match letters_digits_re s \<noteq> None) = (\<exists>L D. letters_then_digits s L D)"
proof
  assume "re_match letters_digits_re s \<noteq> None"
  then have a: "takeWhile is_upper_az s \<noteq> []"
      "takeWhile is_digit (dropWhile is_upper_az s) \<noteq> []"
      "dropWhile is_digit (dropWhile is_upper_az s) = [] \<or>
       dropWhile is_digit (dropWhile is_upper_az s) = [CHR 0x0A]"
    using letters_digits_match [of s] by blast+
  let ?L = "takeWhile is_upper_az s"
  let ?D = "takeWhile is_digit (dropWhile is_upper_az s)"
  let ?R = "dropWhile is_digit (dropWhile is_upper_az s)"
  have s: "?L @ ?D @ ?R = s" by simp
  have "?R = []"
  proof (rule ccontr)
    assume "?R \<noteq> []"
    with a(3) have "?R = [CHR 0x0A]" by blast
    then have "(?L @ ?D) @ [CHR 0x0A] = ?L @ ?D @ ?R" by (simp only: append_assoc)
    also note s
    finally have "s = (?L @ ?D) @ [CHR 0x0A]" by (rule sym)
    then have "s \<noteq> []" "last s = CHR 0x0A" by (metis snoc_eq_iff_butlast)+
    with assms LF_space show False by simp
  qed
  then have "?L @ ?D = ?L @ ?D @ ?R" by (simp only: append_Nil2)
  also note s
  finally have "s = ?L @ ?D" by (rule sym)
  moreover have "list_all is_upper_az ?L" "list_all is_digit ?D"
    by (auto simp: list_all_iff dest: set_takeWhileD)
  ultimately have "letters_then_digits s ?L ?D"
    using a(1,2) by (simp add: letters_then_digits_def)
  then show "\<exists>L D. letters_then_digits s L D" by blast
next
  assume "\<exists>L D. letters_then_digits s L D"
  then obtain L D where ld: "letters_then_digits s L D" by blast
  then have "L \<noteq> []" "D \<noteq> []" "\<forall>x\<in>set D. is_digit x"
    by (simp_all add: letters_then_digits_def list_all_iff)
  with letters_then_digits_takeWhile [OF ld] takeWhile_all_nonempty [of D is_digit]
  have "takeWhile is_upper_az s \<noteq> [] \<and> takeWhile is_digit (dropWhile is_upper_az s) \<noteq> [] \<and>
      (dropWhile is_digit (dropWhile is_upper_az s) = [] \<or>
       dropWhile is_digit (dropWhile is_upper_az s) = [CHR 0x0A])"
    by simp
  then show "re_match letters_digits_re s \<noteq> None"
    using letters_digits_match [of s] by blast
qed

lemma all_digits_shape:
  assumes "s = [] \<or> \<not> is_space (last s)"
  shows "(re_match all_digits_re s \<noteq> None) = (s \<noteq> [] \<and> list_all is_digit s)"
proof
  assume "re_match all_digits_re s \<noteq> None"
  then have a: "takeWhile is_digit s \<noteq> []"
    "dropWhile is_digit s = [] \<or> dropWhile is_digit s = [CHR 0x0A]"
    using all_digits_match [of s] by blast+
  have s: "takeWhile is_digit s @ dropWhile is_digit s = s" by simp
  have "dropWhile is_digit s = []"
  proof (rule ccontr)
    assume "dropWhile is_digit s \<noteq> []"
    with a(2) have "dropWhile is_digit s = [CHR 0x0A]" by blast
    then have "takeWhile is_digit s @ [CHR 0x0A] = takeWhile is_digit s @ dropWhile is_digit s"
      by (simp only:)
    also note s
    finally have "s = takeWhile is_digit s @ [CHR 0x0A]" by (rule sym)
    then have "s \<noteq> []" "last s = CHR 0x0A" by (metis snoc_eq_iff_butlast)+
    with assms LF_space show False by simp
  qed
  with a(1) show "s \<noteq> [] \<and> list_all is_digit s"
    by (auto simp: list_all_iff)
next
  assume "s \<noteq> [] \<and> list_all is_digit s"
  then have "takeWhile is_digit s \<noteq> [] \<and>
     (dropWhile is_digit s = [] \<or> dropWhile is_digit s = [CHR 0x0A])"
    using takeWhile_all_nonempty [of s is_digit] by (simp add: list_all_iff)
  then show "re_match all_digits_re s \<noteq> None"
    using all_digits_match [of s] by blast
qed

lemma strip_no_trailing_space: "no_trailing_space (strip s)"
proof (cases "strip s = []")
  case True
  then show ?thesis by (simp add: no_trailing_space_def)
next
  case False
  let ?u = "dropWhile is_space (rev (dropWhile is_space s))"
  from False have u: "?u \<noteq> []" by (simp add: strip_def)
  then have "\<not> is_space (hd ?u)" by (rule hd_dropWhile)
  moreover from u have "last (strip s) = hd ?u" by (simp add: strip_def last_rev)
  ultimately show ?thesis by (simp add: no_trailing_space_def)
qed

lemma parse_line_example:
  "no_trailing_space (x_example e) \<Longrightarrow> no_trailing_space (x_example (parse_line e ln))"
  by (simp add: parse_line_def Let_def strip_no_trailing_space split: option.splits)

lemma foldl_parse_line_example:
  "no_trailing_space (x_example e) \<Longrightarrow> no_trailing_space (x_example (foldl parse_line e lns))"
  by (induction lns arbitrary: e) (simp_all add: parse_line_example)

lemma parse_reply_example: "no_trailing_space (x_example (parse_reply final))"
  unfolding parse_reply_def
  by (rule foldl_parse_line_example) (simp add: extracted_init_def no_trailing_space_def)

lemma infer_email_keeps:
  "x_example (infer_email e) = x_example e" "x_pattern (infer_email e) = x_pattern e"
  by (simp_all add: infer_email_def split: option.splits)

lemma post_keeps:
  "x_example (derive_prefix (default_homepage u e)) = x_example e"
  "x_pattern (derive_prefix (default_homepage u e)) = x_pattern e"
  by (simp_all add: derive_prefix_def default_homepage_def Let_def)

lemma infer_pattern_example: "x_example (infer_pattern e) = x_example e"
  by (simp add: infer_pattern_def Let_def split: option.splits)

lemma infer_pattern_letters:
  assumes "x_pattern e = []" and "letters_then_digits (x_example e) L D"
  shows "x_pattern (infer_pattern e) = ''^'' @ L @ [CHR 0x5C] @ ''d{'' @ str_nat (length D) @ ''}$''"
proof -
  note tw = letters_then_digits_takeWhile [OF assms(2)]
  from assms(2) have ne: "x_example e \<noteq> []" "L \<noteq> []" "D \<noteq> []"
    by (auto simp: letters_then_digits_def)
  from assms(2) have m1: "re_match letters_digits_re (x_example e) \<noteq> None"
    using letters_digits_match [of "x_example e"] tw ne by simp
  from tw(1) ne have m2: "re_match letters_re (x_example e) = Some (L, [1 \<mapsto> L])"
    using match_letters [of "x_example e"] by simp
  have m3: "length (re_findall digit_re (x_example e)) = length D"
    by (simp add: re_findall_def digit_re_def findall_chr tw(5))
  from assms(1) ne m1 m2 m3 show ?thesis
    by (simp add: infer_pattern_def Let_def group_text_def)
qed

lemma digit_not_upper: "is_digit c \<Longrightarrow> \<not> is_upper_az c"
  by (simp add: is_upper_az_def is_digit_def)

lemma infer_pattern_digits:
  assumes "x_pattern e = []" and "x_example e \<noteq> []" and "list_all is_digit (x_example e)"
  shows "x_pattern (infer_pattern e) =
           ''^'' @ [CHR 0x5C] @ ''d{'' @ str_nat (length (x_example e)) @ ''}$''"
proof -
  from assms(2,3) obtain d ds where d: "x_example e = d # ds" "is_digit d"
    by (cases "x_example e") auto
  then have "takeWhile is_upper_az (x_example e) = []" by (simp add: digit_not_upper)
  then have m1: "re_match letters_digits_re (x_example e) = None"
    using letters_digits_match [of "x_example e"] by blast
  from d have "takeWhile is_digit (x_example e) \<noteq> []" by simp
  moreover from assms(3) have "dropWhile is_digit (x_example e) = []"
    by (simp add: list_all_iff)
  ultimately have "takeWhile is_digit (x_example e) \<noteq> [] \<and>
     (dropWhile is_digit (x_example e) = [] \<or> dropWhile is_digit (x_example e) = [CHR 0x0A])"
    by blast
  then have m2: "re_match all_digits_re (x_example e) \<noteq> None"
    using all_digits_match [of "x_example e"] by blast
  from assms(1,2) m1 m2 show ?thesis
    by (simp add: infer_pattern_def Let_def)
qed

lemma infer_pattern_other:
  assumes "x_pattern e = []" and "no_trailing_space (x_example e)"
    and "\<not> (\<exists>L D. letters_then_digits (x_example e) L D)"
    and "\<not> list_all is_digit (x_example e)"
  shows "x_pattern (infer_pattern e) = []"
proof -
  from assms(2) have t: "x_example e = [] \<or> \<not> is_space (last (x_example e))"
    by (simp add: no_trailing_space_def)
  from assms(3) have m1: "re_match letters_digits_re (x_example e) = None"
    using letters_digits_shape [OF t] by blast
  from assms(4) have m2: "re_match all_digits_re (x_example e) = None"
    using all_digits_shape [OF t] by blast
  from assms(1) m1 m2 show ?thesis
    by (simp add: infer_pattern_def Let_def)
qed

text \<open>
  C5, as the code has it. Whenever the parsed pattern is empty and the parsed example is
  not: if the example is one or more capital letters A-Z followed by one or more digits,
  the pattern of the returned record is \<open>^\<close>, the letters, \<open>\d{N}$\<close> with \<open>N\<close> the number of the
  digits; if the example is all digits, the pattern is \<open>^\d{N}$\<close> with \<open>N\<close> its length; for
  every other example the pattern stays empty.
\<close>

theorem pattern_inference:
  assumes "agent homepage_url = AgentFinal final"
    and "x_pattern (parse_reply final) = []" and "x_example (parse_reply final) \<noteq> []"
  shows "\<exists>db. extract_database_info agent homepage_url = Inr db \<and>
     db_example db = x_example (parse_reply final) \<and>
     (\<forall>L D. letters_then_digits (db_example db) L D \<longrightarrow>
        db_pattern db = ''^'' @ L @ [CHR 0x5C] @ ''d{'' @ str_nat (length D) @ ''}$'') \<and>
     (list_all is_digit (db_example db) \<longrightarrow>
        db_pattern db = ''^'' @ [CHR 0x5C] @ ''d{'' @ str_nat (length (db_example db)) @ ''}$'') \<and>
     (\<not> (\<exists>L D. letters_then_digits (db_example db) L D) \<and> \<not> list_all is_digit (db_example db) \<longrightarrow>
        db_pattern db = [])"
proof -
  let ?e = "infer_email (parse_reply final)"
  let ?db = "to_database_info (derive_prefix (default_homepage homepage_url (infer_pattern ?e)))"
  have ex: "x_example ?e = x_example (parse_reply final)" and pat: "x_pattern ?e = []"
    using assms(2) by (simp_all add: infer_email_keeps)
  have tidy: "no_trailing_space (x_example ?e)"
    by (simp add: ex parse_reply_example)
  have ne: "x_example ?e \<noteq> []" using assms(3) ex by simp
  have r: "extract_database_info agent homepage_url = Inr ?db"
    using assms(1) by (simp add: extract_database_info_def)
  have dbex: "db_example ?db = x_example ?e"
    by (simp add: to_database_info_def post_keeps infer_pattern_example)
  have dbpat: "db_pattern ?db = x_pattern (infer_pattern ?e)"
    by (simp add: to_database_info_def post_keeps)
  have a: "\<forall>L D. letters_then_digits (db_example ?db) L D \<longrightarrow>
        db_pattern ?db = ''^'' @ L @ [CHR 0x5C] @ ''d{'' @ str_nat (length D) @ ''}$''"
    unfolding dbex dbpat using infer_pattern_letters [OF pat] by blast
  have b: "list_all is_digit (db_example ?db) \<longrightarrow>
        db_pattern ?db = ''^'' @ [CHR 0x5C] @ ''d{'' @ str_nat (length (db_example ?db)) @ ''}$''"
    unfolding dbex dbpat using infer_pattern_digits [OF pat ne] by blast
  have c: "\<not> (\<exists>L D. letters_then_digits (db_example ?db) L D) \<and> \<not> list_all is_digit (db_example ?db) \<longrightarrow>
        db_pattern ?db = []"
    unfolding dbex dbpat using infer_pattern_other [OF pat tidy] by blast
  from r dbex ex a b c show ?thesis by (intro exI [of _ ?db]) simp
qed

lemma abc_parsed:
  "x_pattern (parse_reply (Some ''Example: ABC123'')) = [] \<and>
   x_example (parse_reply (Some ''Example: ABC123'')) = ''ABC123''"
  by code_simp

lemma abc_shape: "letters_then_digits ''ABC123'' ''ABC'' ''123''"
  by (simp add: letters_then_digits_def is_upper_az_def is_digit_def code_def)

theorem pattern_inference_witness:
  "abc_agent ''http://h.org'' = AgentFinal (Some ''Example: ABC123'') \<and>
   x_pattern (parse_reply (Some ''Example: ABC123'')) = [] \<and>
   x_example (parse_reply (Some ''Example: ABC123'')) \<noteq> [] \<and>
   letters_then_digits ''ABC123'' ''ABC'' ''123'' \<and>
   (\<exists>db. extract_database_info abc_agent ''http://h.org'' = Inr db \<and>
         db_example db = ''ABC123'' \<and> db_pattern db = ''^ABC'' @ [CHR 0x5C] @ ''d{3}$'')"
proof -
  have a: "abc_agent ''http://h.org'' = AgentFinal (Some ''Example: ABC123'')"
    by (simp add: abc_agent_def)
  from abc_parsed have p: "x_pattern (parse_reply (Some ''Example: ABC123'')) = []"
    and e: "x_example (parse_reply (Some ''Example: ABC123'')) = ''ABC123''" by blast+
  from e have ne: "x_example (parse_reply (Some ''Example: ABC123'')) \<noteq> []" by simp
  from pattern_inference [of abc_agent "''http://h.org''" "Some ''Example: ABC123''", OF a p ne]
  obtain db where
    db: "extract_database_info abc_agent ''http://h.org'' = Inr db"
      "db_example db = x_example (parse_reply (Some ''Example: ABC123''))"
    and l: "\<forall>L D. letters_then_digits (db_example db) L D \<longrightarrow>
        db_pattern db = ''^'' @ L @ [CHR 0x5C] @ ''d{'' @ str_nat (length D) @ ''}$''"
    by blast
  from db(2) e have ex: "db_example db = ''ABC123''" by simp
  with abc_shape have "letters_then_digits (db_example db) ''ABC'' ''123''" by simp
  with l have
    "db_pattern db = ''^'' @ ''ABC'' @ [CHR 0x5C] @ ''d{'' @ str_nat (length ''123'') @ ''}$''"
    by blast
  moreover have "str_nat (length ''123'') = ''3''" by code_simp
  ultimately have "db_pattern db = ''^ABC'' @ [CHR 0x5C] @ ''d{3}$''" by simp
  with db(1) ex a p ne abc_shape show ?thesis by blast
qed

text \<open>
  An example of lowercase letters followed by digits is letters followed by digits, and
  gets no pattern.
\<close>

theorem lowercase_example_no_pattern:
  "list_all is_letter_az ''abc'' \<and> list_all is_digit ''123'' \<and>
   extract_database_info lowercase_agent ''http://h.org'' =
     Inr \<lparr> db_name = [], db_prefix = [], db_description = [], db_homepage = ''http://h.org'',
           db_example = ''abc123'', db_pattern = [], db_uri_format = [], db_keywords = [],
           db_contact = \<lparr> c_email = [], c_name = [], c_orcid = [] \<rparr> \<rparr>"
  by code_simp

lemma digits_example:
  "db_pattern (projr (extract_database_info digits_agent ''http://h.org'')) = ''^'' @ [CHR 0x5C] @ ''d{5}$''"
  by code_simp

section \<open>Properties of the scan for URLs\<close>

lemma rev_upt_Suc: "1 \<le> n \<Longrightarrow> rev [1..<Suc n] = n # rev [1..<n]"
proof -
  assume "1 \<le> n"
  then have "[1..<Suc n] = [1..<n] @ [n]" by (rule upt_Suc_append)
  then show ?thesis by (simp only: rev_append rev.simps append_Nil append_Cons)
qed

lemma prefix_append_drop: "prefix (a @ b) s = (prefix a s \<and> prefix b (drop (length a) s))"
  by (auto simp: prefix_def)

lemma ms_url_https:
  "ms url_re (i, ''https://'' @ t, g) =
     map (\<lambda>k. (i + 8 + k, drop k t, g)) (rev [1..<Suc (length (takeWhile url_char t))])"
  by (simp add: url_re_def ms_lit opt_def ch_def ms_plus_chr del: upt_Suc ms.simps(7))

lemma ms_url_http:
  "ms url_re (i, ''http://'' @ t, g) =
     map (\<lambda>k. (i + 7 + k, drop k t, g)) (rev [1..<Suc (length (takeWhile url_char t))])"
  by (simp add: url_re_def ms_lit opt_def ch_def ms_plus_chr del: upt_Suc ms.simps(7))

lemma ms_url_none:
  assumes "\<not> prefix ''http://'' s" and "\<not> prefix ''https://'' s"
  shows "ms url_re (i, s, g) = []"
proof (cases "prefix ''http'' s")
  case False
  then show ?thesis by (simp add: url_re_def ms_lit)
next
  case True
  then obtain t where s: "s = ''http'' @ t" by (auto simp: prefix_def)
  from assms s have 1: "\<not> prefix ''://'' t" and 2: "\<not> prefix ''s://'' t" by simp_all
  show ?thesis
  proof (cases t)
    case Nil
    with s show ?thesis by (simp add: url_re_def ms_lit opt_def ch_def)
  next
    case (Cons c cs)
    with s 1 2 show ?thesis
      by (auto simp add: url_re_def ms_lit opt_def ch_def simp del: ms.simps(7))
  qed
qed

lemma url_char_scheme: "\<forall>c\<in>set ''https://''. url_char c" "\<forall>c\<in>set ''http://''. url_char c"
  by (simp_all add: url_char_def is_space_def code_def)

lemma not_both_schemes: "prefix ''http://'' s \<Longrightarrow> \<not> prefix ''https://'' s"
  by (auto simp: prefix_def)

lemma match_at_url:
  "match_at url_re i s =
     (if (prefix ''http://'' s \<and> 7 + 1 \<le> length (takeWhile url_char s)) \<or>
         (prefix ''https://'' s \<and> 8 + 1 \<le> length (takeWhile url_char s))
      then Some (i + length (takeWhile url_char s), Map.empty) else None)"
proof (cases "prefix ''https://'' s")
  case True
  then obtain t where s: "s = ''https://'' @ t" by (auto simp: prefix_def)
  have tw: "takeWhile url_char s = ''https://'' @ takeWhile url_char t"
    unfolding s using url_char_scheme(1) by (simp add: takeWhile_append2)
  have np: "\<not> prefix ''http://'' s" using True not_both_schemes by blast
  show ?thesis
  proof (cases "takeWhile url_char t = []")
    case True
    then have "ms url_re (i, s, Map.empty) = []"
      unfolding s ms_url_https by simp
    with True tw np show ?thesis by (simp add: match_at_def)
  next
    case False
    then have n1: "1 \<le> length (takeWhile url_char t)" by (simp add: Suc_le_eq)
    have "ms url_re (i, s, Map.empty) =
       map (\<lambda>k. (i + 8 + k, drop k t, Map.empty))
         (length (takeWhile url_char t) # rev [1..<length (takeWhile url_char t)])"
      unfolding s ms_url_https by (simp only: rev_upt_Suc [OF n1])
    with False tw np n1 \<open>prefix ''https://'' s\<close> show ?thesis by (simp add: match_at_def)
  qed
next
  case nhttps: False
  show ?thesis
  proof (cases "prefix ''http://'' s")
    case True
    then obtain t where s: "s = ''http://'' @ t" by (auto simp: prefix_def)
    have tw: "takeWhile url_char s = ''http://'' @ takeWhile url_char t"
      unfolding s using url_char_scheme(2) by (simp add: takeWhile_append2)
    show ?thesis
    proof (cases "takeWhile url_char t = []")
      case True
      then have "ms url_re (i, s, Map.empty) = []"
        unfolding s ms_url_http by simp
      with True tw nhttps show ?thesis by (simp add: match_at_def)
    next
      case False
      then have n1: "1 \<le> length (takeWhile url_char t)" by (simp add: Suc_le_eq)
      have "ms url_re (i, s, Map.empty) =
         map (\<lambda>k. (i + 7 + k, drop k t, Map.empty))
           (length (takeWhile url_char t) # rev [1..<length (takeWhile url_char t)])"
        unfolding s ms_url_http by (simp only: rev_upt_Suc [OF n1])
      with False tw nhttps n1 \<open>prefix ''http://'' s\<close> show ?thesis by (simp add: match_at_def)
    qed
  next
    case False
    with nhttps show ?thesis by (simp add: match_at_def ms_url_none)
  qed
qed

lemma findall_url_runs: "findall_from url_re i s = url_runs 1 s"
proof (induction "1::nat" s arbitrary: i rule: url_runs.induct)
  case (1 s)
  let ?c = "(prefix ''http://'' s \<and> 7 + 1 \<le> length (takeWhile url_char s)) \<or>
            (prefix ''https://'' s \<and> 8 + 1 \<le> length (takeWhile url_char s))"
  show ?case
  proof (cases "s = []")
    case True
    then show ?thesis
      by (subst findall_from.simps, subst url_runs.simps) (simp add: match_at_url)
  next
    case ne: False
    show ?thesis
    proof (cases ?c)
      case True
      then have pos: "0 < length (takeWhile url_char s)" by auto
      from 1(1) [OF ne True] have ih:
        "findall_from url_re (i + length (takeWhile url_char s)) (dropWhile url_char s) =
           url_runs 1 (dropWhile url_char s)" .
      from True have m: "match_at url_re i s = Some (i + length (takeWhile url_char s), Map.empty)"
        by (subst match_at_url) (rule if_P)
      show ?thesis
        using ne True pos ih
        by (subst findall_from.simps, subst url_runs.simps)
          (simp add: m takeWhile_eq_take [symmetric] dropWhile_eq_drop [symmetric])
    next
      case False
      from 1(2) [OF ne False] have ih: "findall_from url_re (Suc i) (tl s) = url_runs 1 (tl s)" .
      from False have m: "match_at url_re i s = None"
        by (subst match_at_url) (rule if_not_P)
      have r: "url_runs 1 s = url_runs 1 (tl s)"
        by (subst url_runs.simps) (simp only: ne False if_False)
      have l: "findall_from url_re i s = findall_from url_re (Suc i) (tl s)"
        by (subst findall_from.simps) (simp add: m ne)
      from l r ih show ?thesis by simp
    qed
  qed
qed

lemma LF_not_punct: "\<not> is_punct (CHR 0x0A)"
  by (simp add: is_punct_def)

lemma concat_map_all_Nil: "(\<And>x. x \<in> set xs \<Longrightarrow> f x = []) \<Longrightarrow> concat (map f xs) = []"
  by (induction xs) auto

lemma ms_plus_then:
  assumes "\<And>k. 1 \<le> k \<Longrightarrow> k < length (takeWhile P s) \<Longrightarrow> ms r (i + k, drop k s, g) = []"
  shows "ms (Seq (plus_re (Chr P)) r) (i, s, g) =
           (if takeWhile P s = [] then []
            else ms r (i + length (takeWhile P s), dropWhile P s, g))"
proof (cases "takeWhile P s = []")
  case True
  then show ?thesis by (simp add: ms_plus_chr del: ms.simps(7))
next
  case False
  let ?n = "length (takeWhile P s)"
  from False have n1: "1 \<le> ?n" by (simp add: Suc_le_eq)
  have "ms (Seq (plus_re (Chr P)) r) (i, s, g) =
          concat (map (\<lambda>k. ms r (i + k, drop k s, g)) (rev [1..<Suc ?n]))"
    by (simp add: ms_plus_chr comp_def del: upt_Suc ms.simps(7))
  also have "\<dots> = ms r (i + ?n, drop ?n s, g) @
                    concat (map (\<lambda>k. ms r (i + k, drop k s, g)) (rev [1..<?n]))"
    by (simp only: rev_upt_Suc [OF n1] list.map concat.simps)
  also have "concat (map (\<lambda>k. ms r (i + k, drop k s, g)) (rev [1..<?n])) = []"
    by (rule concat_map_all_Nil) (simp add: assms)
  finally show ?thesis using False by (simp add: dropWhile_eq_drop)
qed

lemma match_at_trailing_punct:
  "match_at trailing_punct_re i s =
     (if takeWhile is_punct s \<noteq> [] \<and> (dropWhile is_punct s = [] \<or> dropWhile is_punct s = [CHR 0x0A])
      then Some (i + length (takeWhile is_punct s), Map.empty) else None)"
proof -
  have "\<And>k. 1 \<le> k \<Longrightarrow> k < length (takeWhile is_punct s) \<Longrightarrow>
          ms Eol (i + k, drop k s, Map.empty) = []"
  proof -
    fix k assume "1 \<le> k" "k < length (takeWhile is_punct s)"
    from drop_starts [OF this(2)] obtain t where "drop k s = s ! k # t" "is_punct (s ! k)" by blast
    then show "ms Eol (i + k, drop k s, Map.empty) = []" using LF_not_punct by auto
  qed
  then have "ms trailing_punct_re (i, s, Map.empty) =
      (if takeWhile is_punct s = [] then []
       else ms Eol (i + length (takeWhile is_punct s), dropWhile is_punct s, Map.empty))"
    unfolding trailing_punct_re_def seqs.simps by (rule ms_plus_then)
  then show ?thesis by (simp add: match_at_def)
qed

lemma strip_punct_Cons:
  "strip_punct (c # cs) = (if \<forall>x\<in>set (c # cs). is_punct x then [] else c # strip_punct cs)"
  by (auto simp: strip_punct_def dropWhile_append)

lemma sub_trailing_punct_Nil: "sub_from trailing_punct_re [] j [] = []"
  by (subst sub_from.simps) (simp add: match_at_trailing_punct)

lemma sub_trailing_punct:
  "CHR 0x0A \<notin> set s \<Longrightarrow> sub_from trailing_punct_re [] i s = strip_punct s"
proof (induction s arbitrary: i)
  case Nil
  show ?case by (subst sub_from.simps) (simp add: match_at_trailing_punct strip_punct_def)
next
  case (Cons c cs)
  let ?s = "c # cs"
  from Cons.prems have nl: "CHR 0x0A \<notin> set (dropWhile is_punct ?s)"
    using set_dropWhileD by fastforce
  then have nlf: "dropWhile is_punct ?s \<noteq> [CHR 0x0A]" by auto
  show ?case
  proof (cases "\<forall>x\<in>set ?s. is_punct x")
    case True
    then have tw: "takeWhile is_punct ?s = ?s" and dw: "dropWhile is_punct ?s = []"
      by (simp_all add: takeWhile_eq_all_conv)
    then have m: "match_at trailing_punct_re i ?s = Some (i + length ?s, Map.empty)"
      by (subst match_at_trailing_punct) (simp only: tw dw, simp)
    have "sub_from trailing_punct_re [] i ?s = []"
      by (subst sub_from.simps) (simp add: m sub_trailing_punct_Nil)
    moreover from True have "strip_punct ?s = []" by (subst strip_punct_Cons) (rule if_P)
    ultimately show ?thesis by (simp only:)
  next
    case False
    then have "dropWhile is_punct ?s \<noteq> []" by (metis dropWhile_eq_Nil_conv)
    with nlf have m: "match_at trailing_punct_re i ?s = None"
      by (subst match_at_trailing_punct) (simp only: if_False simp_thms)
    from Cons.prems have "CHR 0x0A \<notin> set cs" by simp
    then have ih: "sub_from trailing_punct_re [] (Suc i) cs = strip_punct cs" by (rule Cons.IH)
    have "sub_from trailing_punct_re [] i ?s = c # strip_punct cs"
      by (subst sub_from.simps) (simp add: m ih)
    with False show ?thesis by (simp only: strip_punct_Cons if_False)
  qed
qed

lemma url_runs_chars: "u \<in> set (url_runs n s) \<Longrightarrow> \<forall>c\<in>set u. url_char c"
proof (induction n s rule: url_runs.induct)
  case (1 n s)
  then show ?case
    by (subst (asm) (3) url_runs.simps) (auto split: if_splits dest: set_takeWhileD)
qed

lemma url_char_not_LF: "url_char c \<Longrightarrow> c \<noteq> CHR 0x0A"
  using LF_space by (auto simp: url_char_def)

text \<open>
  C4, as the code has it. For every text the scan returns, in the order of their
  appearance, the maximal runs of characters other than whitespace, \<open>)\<close> and \<open>]\<close> that
  begin with \<open>http://\<close> or \<open>https://\<close> and have at least one character after the scheme,
  each without its trailing run of \<open>.\<close>, \<open>,\<close>, \<open>;\<close>, \<open>:\<close>. The text
  \<open>see http://a.co/x, and https://b.org/y).\<close> gives the two URLs of the specification.
\<close>

theorem url_scan:
  "find_urls text = spec_find_urls 1 text \<and>
   find_urls ''see http://a.co/x, and https://b.org/y).'' = [''http://a.co/x'', ''https://b.org/y'']"
proof
  have "\<And>u. u \<in> set (url_runs 1 text) \<Longrightarrow> re_sub trailing_punct_re [] u = strip_punct u"
  proof -
    fix u assume "u \<in> set (url_runs 1 text)"
    then have "CHR 0x0A \<notin> set u" using url_runs_chars url_char_not_LF by blast
    then show "re_sub trailing_punct_re [] u = strip_punct u"
      unfolding re_sub_def by (rule sub_trailing_punct)
  qed
  then show "find_urls text = spec_find_urls 1 text"
    by (simp add: find_urls_def spec_find_urls_def re_findall_def findall_url_runs)
next
  show "find_urls ''see http://a.co/x, and https://b.org/y).'' = [''http://a.co/x'', ''https://b.org/y'']"
    by code_simp
qed

theorem url_scan_witness:
  "find_urls ''at http://www.x.org/db.html; see (https://y.org).'' =
     [''http://www.x.org/db.html'', ''https://y.org''] \<and>
   spec_find_urls 1 ''at http://www.x.org/db.html; see (https://y.org).'' =
     [''http://www.x.org/db.html'', ''https://y.org'']"
proof -
  have "spec_find_urls 1 ''at http://www.x.org/db.html; see (https://y.org).'' =
     [''http://www.x.org/db.html'', ''https://y.org'']"
    by code_simp
  with url_scan [of "''at http://www.x.org/db.html; see (https://y.org).''"] show ?thesis
    by simp
qed

text \<open>
  The text \<open>http://\<close> is a maximal run that begins with \<open>http://\<close>; the scan of the code
  does not return it.
\<close>

theorem bare_scheme_not_found:
  "find_urls ''http://'' = [] \<and> spec_find_urls 0 ''http://'' = [''http://'']"
  by code_simp

section \<open>The name and the key of the assembled record\<close>

lemma star_aux_sound:
  assumes "\<And>i s g j t h. (j, t, h) \<in> set (f (i, s, g)) \<Longrightarrow> i \<le> j \<and> t = drop (j - i) s"
  shows "(j, t, h) \<in> set (star_aux f n (i, s, g)) \<Longrightarrow> i \<le> j \<and> t = drop (j - i) s"
proof (induction n arbitrary: i s g)
  case 0
  then show ?case by simp
next
  case (Suc n)
  from Suc.prems consider "(j, t, h) = (i, s, g)"
    | i' s' g' where "(i', s', g') \<in> set (f (i, s, g))" "(j, t, h) \<in> set (star_aux f n (i', s', g'))"
    by (auto split: if_splits)
  then show ?case
  proof cases
    case 1
    then show ?thesis by simp
  next
    case 2
    from assms [OF 2(1)] have a: "i \<le> i'" "s' = drop (i' - i) s" by simp_all
    from Suc.IH [OF 2(2)] have b: "i' \<le> j" "t = drop (j - i') s'" by simp_all
    from a b show ?thesis by simp
  qed
qed

lemma ms_sound: "(j, t, h) \<in> set (ms r (i, s, g)) \<Longrightarrow> i \<le> j \<and> t = drop (j - i) s"
proof (induction r arbitrary: i s g j t h)
  case (Chr P)
  then show ?case by (auto split: list.splits if_splits)
next
  case Eps
  then show ?case by simp
next
  case Bol
  then show ?case by (auto split: if_splits)
next
  case Eol
  then show ?case by (auto split: if_splits)
next
  case (Seq a b)
  from Seq.prems obtain i' s' g' where 1: "(i', s', g') \<in> set (ms a (i, s, g))"
    and 2: "(j, t, h) \<in> set (ms b (i', s', g'))" by auto
  from Seq.IH(1) [OF 1] Seq.IH(2) [OF 2] show ?case by simp
next
  case (Alt a b)
  then show ?case by auto
next
  case (Star a)
  from Star.prems have "(j, t, h) \<in> set (star_aux (ms a) (length s) (i, s, g))" by simp
  then show ?case by (rule star_aux_sound [rotated]) (rule Star.IH)
next
  case (Group k a)
  then show ?case by auto
qed

lemma bex_ms_star_chr:
  "(\<exists>st'\<in>set (ms (Star (Chr P)) (i, s, g)). Q st') =
     (\<exists>k. k \<le> length (takeWhile P s) \<and> Q (i + k, drop k s, g))"
  by (auto simp: ms_star_chr less_Suc_eq_le simp del: upt_Suc ms.simps(7))

lemma lit_ci_Nil: "lit_ci [] = Eps"
  by (simp add: lit_ci_def)

lemma lit_ci_Cons: "lit_ci (c # p) = Seq (Chr (\<lambda>x. lower_char x = lower_char c)) (lit_ci p)"
  by (simp add: lit_ci_def)

lemma ms_lit_ci:
  "ms (lit_ci p) (i, s, g) =
     (if ci_prefix p s then [(i + length p, drop (length p) s, g)] else [])"
proof (induction p arbitrary: i s)
  case Nil
  then show ?case by (simp add: lit_ci_Nil ci_prefix_def)
next
  case (Cons c p)
  show ?case by (cases s) (auto simp: lit_ci_Cons ci_prefix_def Cons.IH)
qed

lemma space_not_alnum: "is_space c \<Longrightarrow> \<not> is_alnum_ascii c"
  by (auto simp: is_space_def is_alnum_ascii_def is_digit_def is_upper_az_def is_lower_az_def)

lemma filter_dropWhile_disjoint:
  "(\<And>c. P c \<Longrightarrow> \<not> Q c) \<Longrightarrow> filter Q (dropWhile P xs) = filter Q xs"
  by (induction xs) auto

lemma filter_alnum_strip: "filter is_alnum_ascii (strip s) = filter is_alnum_ascii s"
proof -
  have "filter is_alnum_ascii (strip s) =
          rev (filter is_alnum_ascii (dropWhile is_space (rev (dropWhile is_space s))))"
    by (simp add: strip_def rev_filter)
  also have "\<dots> = rev (filter is_alnum_ascii (rev (dropWhile is_space s)))"
    by (simp add: filter_dropWhile_disjoint space_not_alnum)
  also have "\<dots> = filter is_alnum_ascii (dropWhile is_space s)"
    by (simp add: rev_filter)
  also have "\<dots> = filter is_alnum_ascii s"
    by (simp add: filter_dropWhile_disjoint space_not_alnum)
  finally show ?thesis .
qed

lemma match_at_plus_chr:
  "match_at (plus_re (Chr P)) i s =
     (if takeWhile P s = [] then None else Some (i + length (takeWhile P s), Map.empty))"
proof (cases "takeWhile P s = []")
  case True
  then show ?thesis by (simp add: match_at_def ms_plus_chr del: ms.simps(7))
next
  case False
  then have n1: "1 \<le> length (takeWhile P s)" by (simp add: Suc_le_eq)
  have "ms (plus_re (Chr P)) (i, s, Map.empty) =
     map (\<lambda>k. (i + k, drop k s, Map.empty)) (length (takeWhile P s) # rev [1..<length (takeWhile P s)])"
    by (simp only: ms_plus_chr rev_upt_Suc [OF n1])
  with False show ?thesis by (simp add: match_at_def)
qed

lemma sub_non_alnum: "sub_from non_alnum_re [] i s = filter is_alnum_ascii s"
proof (induction "length s" arbitrary: s i rule: less_induct)
  case less
  let ?N = "\<lambda>c. \<not> is_alnum_ascii c"
  show ?case
  proof (cases "s = []")
    case True
    then show ?thesis
      by (subst sub_from.simps) (simp add: non_alnum_re_def match_at_plus_chr)
  next
    case ne: False
    show ?thesis
    proof (cases "takeWhile ?N s = []")
      case True
      then have m: "match_at non_alnum_re i s = None"
        by (simp add: non_alnum_re_def match_at_plus_chr)
      from True ne have h: "is_alnum_ascii (hd s)" by (cases s) (auto split: if_splits)
      from ne have "length (tl s) < length s" by simp
      then have ih: "sub_from non_alnum_re [] (Suc i) (tl s) = filter is_alnum_ascii (tl s)"
        by (rule less)
      have "sub_from non_alnum_re [] i s = hd s # filter is_alnum_ascii (tl s)"
        by (subst sub_from.simps) (simp add: m ne ih)
      with h ne show ?thesis by (cases s) simp_all
    next
      case nz: False
      let ?n = "length (takeWhile ?N s)"
      from nz have pos: "0 < ?n" by simp
      from nz have m: "match_at non_alnum_re i s = Some (i + ?n, Map.empty)"
        by (simp add: non_alnum_re_def match_at_plus_chr)
      have "length (takeWhile ?N s) + length (dropWhile ?N s) = length s"
        by (metis length_append takeWhile_dropWhile_id)
      with pos have "length (dropWhile ?N s) < length s" by arith
      then have ih: "sub_from non_alnum_re [] (i + ?n) (dropWhile ?N s) =
                       filter is_alnum_ascii (dropWhile ?N s)"
        by (rule less)
      have "sub_from non_alnum_re [] i s = filter is_alnum_ascii (dropWhile ?N s)"
        by (subst sub_from.simps) (simp add: m ne nz ih dropWhile_eq_drop [symmetric])
      then show ?thesis by (simp add: filter_dropWhile_disjoint)
    qed
  qed
qed

subsection \<open>The version pattern\<close>

lemma version_re_unfold:
  "version_re = Seq (Star (Chr is_space)) (Seq (Alt (lit_ci ''v'') (lit_ci ''version''))
     (Seq (Star (Chr is_space)) (Seq (plus_re (Chr is_digit)) (Seq (Star dot_group) Eol))))"
  by (simp add: version_re_def dot_group_def)

lemma starts_digit_cases:
  "(s \<noteq> [] \<and> is_digit (hd s)) \<or> (s = [] \<or> \<not> is_digit (hd s))"
  by blast

lemma vnum_digits: "vnum True s = vnum True (dropWhile is_digit s)"
  by (induction s) auto

lemma vnum_False: "vnum False s = (takeWhile is_digit s \<noteq> [] \<and> vnum True (dropWhile is_digit s))"
proof (cases s)
  case Nil
  then show ?thesis by simp
next
  case (Cons c cs)
  show ?thesis
  proof (cases "is_digit c")
    case True
    with Cons show ?thesis using vnum_digits [of cs] by simp
  next
    case False
    with Cons show ?thesis by simp
  qed
qed

lemma ms_dot_group:
  "ms dot_group (i, s, g) =
     (case s of
        [] \<Rightarrow> []
      | c # cs \<Rightarrow> if c = CHR ''.''
                 then map (\<lambda>k. (Suc i + k, drop k cs, g)) (rev [1..<Suc (length (takeWhile is_digit cs))])
                 else [])"
  by (cases s) (simp_all add: dot_group_def ch_def ms_plus_chr del: upt_Suc ms.simps(7))

lemma digit_not_dot: "is_digit c \<Longrightarrow> c \<noteq> CHR ''.''"
  by (auto simp: is_digit_def code_def)

lemma star_dot_digit:
  assumes "s \<noteq> []" and "is_digit (hd s)"
  shows "star_aux (ms dot_group) n (i, s, g) = [(i, s, g)]"
proof (cases n)
  case 0
  then show ?thesis by simp
next
  case (Suc m)
  from assms obtain c cs where "s = c # cs" "c \<noteq> CHR ''.''"
    using digit_not_dot by (cases s) auto
  then have "ms dot_group (i, s, g) = []" by (simp add: ms_dot_group)
  with Suc show ?thesis by simp
qed

lemma bex_star_aux_Suc:
  "(\<exists>x\<in>set (star_aux f (Suc n) st). Q x) =
     ((\<exists>st'\<in>set (f st). fst st < fst st' \<and> (\<exists>x\<in>set (star_aux f n st'). Q x)) \<or> Q st)"
  by (auto split: if_splits)

lemma star_dot_eol:
  "length s \<le> n \<Longrightarrow>
   (\<exists>x\<in>set (star_aux (ms dot_group) n (i, s, g)). ms Eol x \<noteq> []) =
     ((s = [] \<or> \<not> is_digit (hd s)) \<and> vnum True s)"
proof (induction n arbitrary: i s g)
  case 0
  then show ?case by simp
next
  case (Suc n)
  show ?case
  proof (cases s)
    case Nil
    then show ?thesis by (simp add: bex_star_aux_Suc ms_dot_group)
  next
    case (Cons c cs)
    show ?thesis
    proof (cases "c = CHR ''.''")
      case False
      with Cons show ?thesis
        by (auto simp add: bex_star_aux_Suc ms_dot_group LF_not_digit)
    next
      case True
      let ?m = "length (takeWhile is_digit cs)"
      have nd: "\<not> is_digit c" using True digit_not_dot by blast
      have rec: "\<And>k. 1 \<le> k \<Longrightarrow> k \<le> ?m \<Longrightarrow>
          (\<exists>x\<in>set (star_aux (ms dot_group) n (Suc i + k, drop k cs, g)). ms Eol x \<noteq> []) =
            (k = ?m \<and> vnum True (drop ?m cs))"
      proof -
        fix k assume k: "1 \<le> k" "k \<le> ?m"
        show "(\<exists>x\<in>set (star_aux (ms dot_group) n (Suc i + k, drop k cs, g)). ms Eol x \<noteq> []) =
            (k = ?m \<and> vnum True (drop ?m cs))"
        proof (cases "k = ?m")
          case True
          from Suc.prems Cons have "length (drop k cs) \<le> n" by simp
          from Suc.IH [OF this]
          have "(\<exists>x\<in>set (star_aux (ms dot_group) n (Suc i + k, drop k cs, g)). ms Eol x \<noteq> []) =
                ((drop k cs = [] \<or> \<not> is_digit (hd (drop k cs))) \<and> vnum True (drop k cs))" .
          moreover have "drop ?m cs = [] \<or> \<not> is_digit (hd (drop ?m cs))"
            by (metis dropWhile_eq_drop hd_dropWhile)
          ultimately show ?thesis using True by simp
        next
          case False
          with k have "k < ?m" by simp
          from drop_starts [OF this] obtain t where t: "drop k cs = cs ! k # t" "is_digit (cs ! k)"
            by blast
          then have "star_aux (ms dot_group) n (Suc i + k, drop k cs, g) = [(Suc i + k, drop k cs, g)]"
            by (intro star_dot_digit) simp_all
          with t False show ?thesis using LF_not_digit by auto
        qed
      qed
      have "(\<exists>x\<in>set (star_aux (ms dot_group) (Suc n) (i, s, g)). ms Eol x \<noteq> []) =
            ((\<exists>k. 1 \<le> k \<and> k \<le> ?m \<and>
                (\<exists>x\<in>set (star_aux (ms dot_group) n (Suc i + k, drop k cs, g)). ms Eol x \<noteq> [])) \<or>
             ms Eol (i, s, g) \<noteq> [])"
        unfolding bex_star_aux_Suc using Cons True
        by (auto simp add: ms_dot_group simp del: upt_Suc ms.simps star_aux.simps)
      also have "\<dots> = ((\<exists>k. 1 \<le> k \<and> k \<le> ?m \<and> k = ?m \<and> vnum True (drop ?m cs)) \<or>
             ms Eol (i, s, g) \<noteq> [])"
        using rec by (metis (no_types, lifting))
      also have "\<dots> = (1 \<le> ?m \<and> vnum True (drop ?m cs))"
        using Cons True by (auto simp: digit_not_dot)
      also have "\<dots> = ((s = [] \<or> \<not> is_digit (hd s)) \<and> vnum True s)"
        using Cons True nd vnum_False [of cs]
        by (simp add: dropWhile_eq_drop [symmetric] Suc_le_eq)
      finally show ?thesis .
    qed
  qed
qed

lemma tail_nonempty:
  "(ms (Seq (Star dot_group) Eol) (i, s, g) \<noteq> []) = ((s = [] \<or> \<not> is_digit (hd s)) \<and> vnum True s)"
  using star_dot_eol [of s "length s" i g] by (simp only: ms_Seq_nonempty ms.simps(7) order_refl)

lemma digits_tail_nonempty:
  "(ms (Seq (plus_re (Chr is_digit)) (Seq (Star dot_group) Eol)) (i, s, g) \<noteq> []) = vnum False s"
proof -
  let ?m = "length (takeWhile is_digit s)"
  let ?T = "\<lambda>t. (t = [] \<or> \<not> is_digit (hd t)) \<and> vnum True t"
  have "(ms (Seq (plus_re (Chr is_digit)) (Seq (Star dot_group) Eol)) (i, s, g) \<noteq> []) =
        (\<exists>k. 1 \<le> k \<and> k \<le> ?m \<and> ?T (drop k s))"
    by (simp only: ms_Seq_nonempty [of "plus_re (Chr is_digit)"] bex_ms_plus_chr tail_nonempty)
  also have "\<dots> = (1 \<le> ?m \<and> ?T (drop ?m s))"
  proof
    assume "\<exists>k. 1 \<le> k \<and> k \<le> ?m \<and> ?T (drop k s)"
    then obtain k where k: "1 \<le> k" "k \<le> ?m" "?T (drop k s)" by blast
    have "k = ?m"
    proof (rule ccontr)
      assume "k \<noteq> ?m"
      with k have "k < ?m" by simp
      from drop_starts [OF this] obtain t where "drop k s = s ! k # t" "is_digit (s ! k)" by blast
      with k(3) show False by simp
    qed
    with k show "1 \<le> ?m \<and> ?T (drop ?m s)" by simp
  next
    assume "1 \<le> ?m \<and> ?T (drop ?m s)"
    then show "\<exists>k. 1 \<le> k \<and> k \<le> ?m \<and> ?T (drop k s)" by blast
  qed
  also have "\<dots> = (takeWhile is_digit s \<noteq> [] \<and> vnum True (dropWhile is_digit s))"
    using hd_dropWhile [of is_digit s]
    by (auto simp add: dropWhile_eq_drop [symmetric] Suc_le_eq)
  also have "\<dots> = vnum False s" by (simp only: vnum_False)
  finally show ?thesis .
qed

lemma space_not_digit: "is_space c \<Longrightarrow> \<not> is_digit c"
  by (auto simp: is_digit_def is_space_def)

lemma number_nonempty:
  "(ms (Seq (Star (Chr is_space)) (Seq (plus_re (Chr is_digit)) (Seq (Star dot_group) Eol)))
      (i, s, g) \<noteq> []) = vnum False (dropWhile is_space s)"
proof -
  let ?n = "length (takeWhile is_space s)"
  have "(ms (Seq (Star (Chr is_space)) (Seq (plus_re (Chr is_digit)) (Seq (Star dot_group) Eol)))
      (i, s, g) \<noteq> []) = (\<exists>k. k \<le> ?n \<and> vnum False (drop k s))"
    by (simp only: ms_Seq_nonempty [of "Star (Chr is_space)"] bex_ms_star_chr digits_tail_nonempty)
  also have "\<dots> = vnum False (drop ?n s)"
  proof
    assume "\<exists>k. k \<le> ?n \<and> vnum False (drop k s)"
    then obtain k where k: "k \<le> ?n" "vnum False (drop k s)" by blast
    have "k = ?n"
    proof (rule ccontr)
      assume "k \<noteq> ?n"
      with k have "k < ?n" by simp
      from drop_starts [OF this] obtain t where "drop k s = s ! k # t" "is_space (s ! k)" by blast
      with k(2) show False by (simp add: space_not_digit)
    qed
    with k show "vnum False (drop ?n s)" by simp
  next
    assume "vnum False (drop ?n s)"
    then show "\<exists>k. k \<le> ?n \<and> vnum False (drop k s)" by blast
  qed
  finally show ?thesis by (simp only: dropWhile_eq_drop)
qed

lemma keyword_nonempty:
  "(ms (Seq (Alt (lit_ci ''v'') (lit_ci ''version''))
         (Seq (Star (Chr is_space)) (Seq (plus_re (Chr is_digit)) (Seq (Star dot_group) Eol))))
      (i, s, g) \<noteq> []) =
     ((ci_prefix ''v'' s \<and> vnum False (dropWhile is_space (drop 1 s))) \<or>
      (ci_prefix ''version'' s \<and> vnum False (dropWhile is_space (drop 7 s))))"
  unfolding ms_Seq_nonempty [of "Alt (lit_ci ''v'') (lit_ci ''version'')"]
  by (auto simp add: ms_lit_ci number_nonempty eval_nat_numeral simp del: ms.simps(5) ms.simps(7))

lemma space_not_v: "is_space c \<Longrightarrow> lower_char c \<noteq> CHR ''v''"
  by (auto simp: is_space_def lower_char_def is_upper_az_def code_def)

lemma ci_prefix_v_space: "is_space c \<Longrightarrow> \<not> ci_prefix (CHR ''v'' # p) (c # t)"
  using space_not_v [of c] by (auto simp: ci_prefix_def lower_char_def is_upper_az_def code_def)

lemma version_nonempty: "(ms version_re (i, s, g) \<noteq> []) = is_version_suffix s"
proof -
  let ?n = "length (takeWhile is_space s)"
  let ?K = "\<lambda>t. (ci_prefix ''v'' t \<and> vnum False (dropWhile is_space (drop 1 t))) \<or>
      (ci_prefix ''version'' t \<and> vnum False (dropWhile is_space (drop 7 t)))"
  have "(ms version_re (i, s, g) \<noteq> []) = (\<exists>k. k \<le> ?n \<and> ?K (drop k s))"
    unfolding version_re_unfold
    by (simp only: ms_Seq_nonempty [of "Star (Chr is_space)"] bex_ms_star_chr keyword_nonempty)
  also have "\<dots> = ?K (drop ?n s)"
  proof
    assume "\<exists>k. k \<le> ?n \<and> ?K (drop k s)"
    then obtain k where k: "k \<le> ?n" "?K (drop k s)" by blast
    have "k = ?n"
    proof (rule ccontr)
      assume "k \<noteq> ?n"
      with k have "k < ?n" by simp
      from drop_starts [OF this] obtain t where "drop k s = s ! k # t" "is_space (s ! k)" by blast
      with k(2) show False using ci_prefix_v_space by auto
    qed
    with k show "?K (drop ?n s)" by simp
  next
    assume "?K (drop ?n s)"
    then show "\<exists>k. k \<le> ?n \<and> ?K (drop k s)" by blast
  qed
  finally show ?thesis by (simp only: dropWhile_eq_drop is_version_suffix_def Let_def)
qed

lemma version_end:
  "(j, t, h) \<in> set (ms version_re (i, s, g)) \<Longrightarrow> t = [] \<or> t = [CHR 0x0A]"
  unfolding version_re_unfold
  by (auto simp del: ms.simps(6) ms.simps(7) split: if_splits)

lemma match_at_None: "(match_at r i s = None) = (ms r (i, s, Map.empty) = [])"
  by (auto simp: match_at_def split: list.splits)

lemma match_at_version: "(match_at version_re i s \<noteq> None) = is_version_suffix s"
  using version_nonempty [of i s Map.empty] by (simp add: match_at_None)

lemma match_at_version_end:
  assumes "match_at version_re i s = Some (j, h)"
  shows "i \<le> j \<and> (drop (j - i) s = [] \<or> drop (j - i) s = [CHR 0x0A])"
proof -
  from assms obtain t xs where "ms version_re (i, s, Map.empty) = (j, t, h) # xs"
    by (auto simp: match_at_def split: list.splits)
  then have m: "(j, t, h) \<in> set (ms version_re (i, s, Map.empty))" by simp
  from ms_sound [OF m] version_end [OF m] show ?thesis by auto
qed

lemma not_version_short: "\<not> is_version_suffix []" "\<not> is_version_suffix [CHR 0x0A]"
  by (simp_all add: is_version_suffix_def ci_prefix_def LF_space)

lemma sub_version_short:
  "sub_from version_re [] j [] = []" "sub_from version_re [] j [CHR 0x0A] = [CHR 0x0A]"
proof -
  have n1: "match_at version_re j [] = None" for j
    using match_at_version [of j "[]"] not_version_short(1) by blast
  have n2: "match_at version_re j [CHR 0x0A] = None" for j
    using match_at_version [of j "[CHR 0x0A]"] not_version_short(2) by blast
  show a: "sub_from version_re [] j [] = []" for j
    by (subst sub_from.simps) (simp add: n1)
  show "sub_from version_re [] j [CHR 0x0A] = [CHR 0x0A]"
    by (subst sub_from.simps) (simp add: n2 a)
qed

lemma LF_not_alnum: "\<not> is_alnum_ascii (CHR 0x0A)"
  using LF_space space_not_alnum by blast

lemma sub_version:
  "filter is_alnum_ascii (sub_from version_re [] i s) = filter is_alnum_ascii (strip_version s)"
proof (induction s arbitrary: i)
  case Nil
  show ?case by (simp add: sub_version_short)
next
  case (Cons c cs)
  let ?s = "c # cs"
  show ?case
  proof (cases "is_version_suffix ?s")
    case True
    then obtain j h where m: "match_at version_re i ?s = Some (j, h)"
      using match_at_version [of i ?s] by auto
    from match_at_version_end [OF m] have ij: "i \<le> j"
      and e: "drop (j - i) ?s = [] \<or> drop (j - i) ?s = [CHR 0x0A]" by simp_all
    have "i \<noteq> j"
    proof
      assume "i = j"
      with e have "?s = [] \<or> ?s = [CHR 0x0A]" by simp
      with True not_version_short show False by auto
    qed
    with ij have lt: "i < j" by simp
    have "sub_from version_re [] i ?s = sub_from version_re [] j (drop (j - i) ?s)"
      by (subst sub_from.simps) (simp add: m lt)
    with e have "filter is_alnum_ascii (sub_from version_re [] i ?s) = []"
      by (auto simp: sub_version_short LF_not_alnum)
    with True show ?thesis by simp
  next
    case False
    then have m: "match_at version_re i ?s = None"
      using match_at_version [of i ?s] by blast
    have "sub_from version_re [] i ?s = c # sub_from version_re [] (Suc i) cs"
      by (subst sub_from.simps) (simp add: m)
    with False Cons.IH [of "Suc i"] show ?thesis by simp
  qed
qed

lemma resolve_prefix_spec:
  "strip (db_field db_prefix db) = [] \<Longrightarrow> resolve_prefix name db = spec_prefix name"
  by (simp add: resolve_prefix_def spec_prefix_def Let_def str_or_def re_sub_def sub_non_alnum
      filter_alnum_strip sub_version lower_def)

subsection \<open>The domain label\<close>

lemma domain_re_unfold:
  "domain_re = Seq (lit ''http'') (Seq (opt (ch CHR ''s'')) (Seq (lit ''://'')
     (Seq (opt (lit ''www.'')) (Group 1 (plus_re (Chr not_slash_dot))))))"
  by (simp add: domain_re_def not_slash_dot_def [abs_def])

lemma ms_label:
  "ms (Group 1 (plus_re (Chr not_slash_dot))) (i, t, g) =
     map (\<lambda>k. (i + k, drop k t, g(1 \<mapsto> take k t))) (rev [1..<Suc (length (takeWhile not_slash_dot t))])"
  by (simp add: ms_plus_chr comp_def del: upt_Suc ms.simps(7))

lemma hd_ms_label:
  assumes "takeWhile not_slash_dot t \<noteq> []"
  shows "\<exists>xs. ms (Group 1 (plus_re (Chr not_slash_dot))) (i, t, g) =
     (i + length (takeWhile not_slash_dot t), dropWhile not_slash_dot t,
      g(1 \<mapsto> takeWhile not_slash_dot t)) # xs"
proof -
  from assms have n1: "1 \<le> length (takeWhile not_slash_dot t)" by (simp add: Suc_le_eq)
  show ?thesis
    unfolding ms_label rev_upt_Suc [OF n1]
    by (simp add: takeWhile_eq_take [symmetric] dropWhile_eq_drop [symmetric])
qed

lemma ms_www_label:
  "ms (Seq (opt (lit ''www.'')) (Group 1 (plus_re (Chr not_slash_dot)))) (i, t, g) =
     (if prefix ''www.'' t then ms (Group 1 (plus_re (Chr not_slash_dot))) (i + 4, drop 4 t, g) else []) @
     ms (Group 1 (plus_re (Chr not_slash_dot))) (i, t, g)"
  by (simp add: opt_def ms_lit eval_nat_numeral del: ms.simps(7) ms.simps(8))

lemma ms_domain_https:
  "ms domain_re (i, ''https://'' @ t, g) =
     ms (Seq (opt (lit ''www.'')) (Group 1 (plus_re (Chr not_slash_dot)))) (i + 8, t, g)"
  unfolding domain_re_unfold
  by (simp add: ms_lit opt_def ch_def eval_nat_numeral del: ms.simps(7) ms.simps(8))

lemma ms_domain_http:
  "ms domain_re (i, ''http://'' @ t, g) =
     ms (Seq (opt (lit ''www.'')) (Group 1 (plus_re (Chr not_slash_dot)))) (i + 7, t, g)"
  unfolding domain_re_unfold
  by (simp add: ms_lit opt_def ch_def eval_nat_numeral del: ms.simps(7) ms.simps(8))

lemma search_from_hit:
  "match_at r i s = Some (j, g) \<Longrightarrow> search_from r i s = Some (take (j - i) s, g)"
  by (cases s) simp_all

lemma ms_label_Nil:
  "takeWhile not_slash_dot t = [] \<Longrightarrow> ms (Group 1 (plus_re (Chr not_slash_dot))) (i, t, g) = []"
  unfolding ms_label by simp

lemma ms_www_label_None:
  assumes "label_after t = None"
  shows "ms (Seq (opt (lit ''www.'')) (Group 1 (plus_re (Chr not_slash_dot)))) (i, t, g) = []"
proof -
  from assms have a: "takeWhile not_slash_dot t = []"
    and b: "prefix ''www.'' t \<longrightarrow> takeWhile not_slash_dot (drop 4 t) = []"
    by (auto simp: label_after_def split: if_splits)
  from b have w: "(if prefix ''www.'' t
      then ms (Group 1 (plus_re (Chr not_slash_dot))) (i + 4, drop 4 t, g) else []) = []"
    using ms_label_Nil [of "drop 4 t" "i + 4" g] by (auto simp del: ms.simps)
  show ?thesis
    unfolding ms_www_label w ms_label_Nil [OF a] by simp
qed

lemma ms_www_label_Some:
  assumes "label_after t = Some l"
  shows "\<exists>j u xs. ms (Seq (opt (lit ''www.'')) (Group 1 (plus_re (Chr not_slash_dot)))) (i, t, g) =
           (j, u, g(1 \<mapsto> l)) # xs"
proof (cases "prefix ''www.'' t \<and> takeWhile not_slash_dot (drop 4 t) \<noteq> []")
  case True
  with assms have l: "takeWhile not_slash_dot (drop 4 t) = l" by (simp add: label_after_def)
  from True hd_ms_label [of "drop 4 t" "i + 4" g] show ?thesis
    unfolding ms_www_label l by (auto simp del: ms.simps)
next
  case False
  then have w: "(if prefix ''www.'' t
      then ms (Group 1 (plus_re (Chr not_slash_dot))) (i + 4, drop 4 t, g) else []) = []"
    using ms_label_Nil [of "drop 4 t" "i + 4" g] by (auto simp del: ms.simps)
  from False assms have n: "takeWhile not_slash_dot t \<noteq> []" and l: "takeWhile not_slash_dot t = l"
    by (auto simp: label_after_def split: if_splits)
  from hd_ms_label [OF n, of i g] show ?thesis
    unfolding ms_www_label w l by (auto simp del: ms.simps)
qed

lemma ms_domain_none:
  assumes "\<not> prefix ''http://'' s" and "\<not> prefix ''https://'' s"
  shows "ms domain_re (i, s, g) = []"
proof (cases "prefix ''http'' s")
  case False
  then show ?thesis unfolding domain_re_unfold by (simp add: ms_lit del: ms.simps(7) ms.simps(8))
next
  case True
  then obtain t where s: "s = ''http'' @ t" by (auto simp: prefix_def)
  from assms s have 1: "\<not> prefix ''://'' t" and 2: "\<not> prefix ''s://'' t" by simp_all
  show ?thesis
  proof (cases t)
    case Nil
    with s show ?thesis unfolding domain_re_unfold
      by (simp add: ms_lit opt_def ch_def del: ms.simps(7) ms.simps(8))
  next
    case (Cons c cs)
    with s 1 2 show ?thesis unfolding domain_re_unfold
      by (auto simp add: ms_lit opt_def ch_def simp del: ms.simps(7) ms.simps(8))
  qed
qed

lemma ms_domain_here:
  "(label_here s = None \<and> ms domain_re (i, s, g) = []) \<or>
   (\<exists>k t. label_here s = label_after t \<and>
      ms domain_re (i, s, g) =
        ms (Seq (opt (lit ''www.'')) (Group 1 (plus_re (Chr not_slash_dot)))) (k, t, g))"
proof (cases "prefix ''https://'' s")
  case True
  then obtain t where s: "s = ''https://'' @ t" by (auto simp: prefix_def)
  then have "label_here s = label_after t" by (simp add: label_here_def)
  with ms_domain_https [of i t g] s show ?thesis by blast
next
  case False
  show ?thesis
  proof (cases "prefix ''http://'' s")
    case True
    then obtain t where s: "s = ''http://'' @ t" by (auto simp: prefix_def)
    with False have "label_here s = label_after t" by (simp add: label_here_def)
    with ms_domain_http [of i t g] s show ?thesis by blast
  next
    case h: False
    with False have "label_here s = None" by (simp add: label_here_def)
    with ms_domain_none [OF h False, of i g] show ?thesis by blast
  qed
qed

lemma match_at_domain_None:
  assumes "label_here s = None"
  shows "match_at domain_re i s = None"
proof -
  from ms_domain_here [of s i Map.empty] assms ms_www_label_None
  have "ms domain_re (i, s, Map.empty) = []" by metis
  then show ?thesis by (simp add: match_at_def)
qed

lemma match_at_domain_Some:
  assumes "label_here s = Some l"
  shows "\<exists>j. match_at domain_re i s = Some (j, [1 \<mapsto> l])"
proof -
  from ms_domain_here [of s i Map.empty] assms obtain k t where
    t: "label_after t = Some l" and
    m: "ms domain_re (i, s, Map.empty) =
        ms (Seq (opt (lit ''www.'')) (Group 1 (plus_re (Chr not_slash_dot)))) (k, t, Map.empty)"
    by auto
  from ms_www_label_Some [OF t, of k Map.empty] m obtain j u xs where
    "ms domain_re (i, s, Map.empty) = (j, u, [1 \<mapsto> l]) # xs" by auto
  then show ?thesis by (simp add: match_at_def)
qed

lemma label_here_Nil: "label_here [] = None"
  by (simp add: label_here_def)

lemma search_from_domain_None:
  "find_label s = None \<Longrightarrow> search_from domain_re i s = None"
proof (induction s arbitrary: i)
  case Nil
  from match_at_domain_None [OF label_here_Nil, of i] show ?case by simp
next
  case (Cons c cs)
  from Cons.prems have h: "label_here (c # cs) = None" and f: "find_label cs = None"
    by (simp_all split: option.splits)
  from match_at_domain_None [OF h, of i] Cons.IH [OF f, of "Suc i"] show ?case by simp
qed

lemma search_from_domain_Some:
  "find_label s = Some l \<Longrightarrow> \<exists>m. search_from domain_re i s = Some m \<and> group_text m 1 = l"
proof (induction s arbitrary: i)
  case Nil
  then show ?case by simp
next
  case (Cons c cs)
  show ?case
  proof (cases "label_here (c # cs)")
    case None
    with Cons.prems have f: "find_label cs = Some l" by simp
    from match_at_domain_None [OF None, of i] Cons.IH [OF f, of "Suc i"] show ?thesis by simp
  next
    case (Some l')
    with Cons.prems have "l' = l" by simp
    with Some match_at_domain_Some [of "c # cs" l i] obtain j where
      "match_at domain_re i (c # cs) = Some (j, [1 \<mapsto> l])" by auto
    then show ?thesis by (simp add: group_text_def)
  qed
qed

lemma resolve_name_spec:
  assumes "strip (db_field db_name db) = []"
  shows "resolve_name pubmed db = spec_name (str_or (db_field db_homepage db) (pm_homepage pubmed))"
proof (cases "find_label (str_or (db_field db_homepage db) (pm_homepage pubmed))")
  case None
  from search_from_domain_None [OF this, of 0] None assms show ?thesis
    by (simp add: resolve_name_def spec_name_def Let_def re_search_def)
next
  case (Some l)
  from search_from_domain_Some [OF this, of 0] Some assms show ?thesis
    by (auto simp: resolve_name_def spec_name_def Let_def re_search_def)
qed


text \<open>The name of the code and the name made from the homepage, on some homepages.\<close>

lemma name_examples:
  "spec_name ''https://www.kegg.jp/'' = ''kegg'' \<and>
   spec_name ''http://kegg.jp'' = ''kegg'' \<and>
   spec_name ''see https://www.kegg.jp/'' = ''kegg'' \<and>
   spec_name ''http://www./x'' = ''www'' \<and>
   spec_name ''http://./https://a.b'' = ''a'' \<and>
   spec_name ''www.kegg.jp'' = ''database'' \<and>
   spec_name ''http://'' = ''database'' \<and>
   spec_name [] = ''database''"
  by code_simp

lemma resolve_name_examples:
  "resolve_name (kegg_metadata \<lparr> pm_homepage := ''see https://www.kegg.jp/'' \<rparr>) None = ''kegg'' \<and>
   resolve_name (kegg_metadata \<lparr> pm_homepage := ''http://www./x'' \<rparr>) None = ''www'' \<and>
   resolve_name (kegg_metadata \<lparr> pm_homepage := ''http://'' \<rparr>) None = ''database'' \<and>
   resolve_name (kegg_metadata \<lparr> pm_homepage := ''www.kegg.jp'' \<rparr>) None = ''database''"
  by code_simp

text \<open>
  C7. The output of the assembler is a dictionary with one key. When the database info is
  absent or its name is empty, the name of the record is made from the homepage (the one of
  the database info, or else the one of the metadata): it is the label at the first place
  of the homepage where \<open>http://\<close> or \<open>https://\<close> is followed, after an optional \<open>www.\<close>, by a
  character other than a dot or a slash, that is the text from there to the next dot or
  slash; it is \<open>database\<close> when the homepage has no such place, as when it is empty or has
  no scheme. Otherwise the name is the one of the database info, stripped. When the
  database info supplies no prefix, the key is made from the name of the record: the
  trailing version suffix is cut off, the characters other than the letters and digits of
  ASCII are removed, the rest is lowercased, and \<open>database_key\<close> stands in for an empty
  result. Otherwise the key is the prefix of the database info, stripped.
\<close>

theorem assembler_name_and_key:
  "\<exists>key record. format_bioregistry_json pubmed db contributor = [(key, record)] \<and>
     br_name record =
       (if strip (db_field db_name db) = []
        then spec_name (str_or (db_field db_homepage db) (pm_homepage pubmed))
        else strip (db_field db_name db)) \<and>
     key =
       (if strip (db_field db_prefix db) = [] then spec_prefix (br_name record)
        else strip (db_field db_prefix db))"
proof -
  have a: "resolve_name pubmed db =
      (if strip (db_field db_name db) = []
       then spec_name (str_or (db_field db_homepage db) (pm_homepage pubmed))
       else strip (db_field db_name db))"
    using resolve_name_spec [of db pubmed] by (simp add: resolve_name_def Let_def)
  have b: "resolve_prefix (resolve_name pubmed db) db =
      (if strip (db_field db_prefix db) = [] then spec_prefix (resolve_name pubmed db)
       else strip (db_field db_prefix db))"
    using resolve_prefix_spec [of db "resolve_name pubmed db"]
    by (simp add: resolve_prefix_def Let_def)
  from a b show ?thesis
    by (simp add: format_bioregistry_json_def Let_def)
qed

lemma kegg_name: "spec_name ''https://www.kegg.jp/'' = ''kegg''"
  by code_simp

lemma kegg_key: "spec_prefix ''kegg'' = ''kegg''"
  by code_simp

lemma version_key: "spec_prefix ''KEGG version 3.1'' = ''kegg'' \<and> spec_prefix ''My DB v2'' = ''mydb''"
  by code_simp

theorem assembler_name_and_key_witness:
  "strip (db_field db_name None) = [] \<and> strip (db_field db_prefix None) = [] \<and>
   str_or (db_field db_homepage None) (pm_homepage kegg_metadata) = ''https://www.kegg.jp/'' \<and>
   spec_name ''https://www.kegg.jp/'' = ''kegg'' \<and> spec_prefix ''kegg'' = ''kegg'' \<and>
   (\<exists>key record. format_bioregistry_json kegg_metadata None PNone = [(key, record)] \<and>
      br_name record = ''kegg'' \<and> key = ''kegg'')"
proof -
  have s: "strip (db_field db_name None) = []" "strip (db_field db_prefix None) = []"
    by (simp_all add: db_field_def strip_def)
  have h: "str_or (db_field db_homepage None) (pm_homepage kegg_metadata) = ''https://www.kegg.jp/''"
    by (simp add: db_field_def str_or_def kegg_metadata_def)
  from assembler_name_and_key [of kegg_metadata None PNone] s h kegg_name kegg_key
  show ?thesis by auto
qed

text \<open>
  A homepage without a scheme is a homepage, and its domain label is \<open>kegg\<close>; the name of
  the record is \<open>database\<close>. The homepage is the one the extractor returns for an agent
  that reports \<open>www.kegg.jp\<close>.
\<close>

theorem name_without_scheme:
  "extract_database_info noscheme_agent ''https://www.kegg.jp/'' = Inr noscheme_db \<and>
   str_or (db_field db_homepage (Some noscheme_db)) (pm_homepage kegg_metadata) = ''www.kegg.jp'' \<and>
   domain_label ''www.kegg.jp'' = ''kegg'' \<and>
   map fst (format_bioregistry_json kegg_metadata (Some noscheme_db) PNone) = [''database''] \<and>
   map (br_name \<circ> snd) (format_bioregistry_json kegg_metadata (Some noscheme_db) PNone) =
     [''database'']"
  by code_simp

end
